theory Spec2Isabelle
  imports Main "HOL-Library.Word" "HOL-Library.Char_ord" "HOL-Library.List_Lexorder"
begin

section \<open>Data model of runtime/mirror/class.cc\<close>

text \<open>
  An \<^verbatim>\<open>ObjPtr<Class>\<close> is an address; \<^verbatim>\<open>nullptr\<close> is \<open>None\<close> of an
  \<open>addr option\<close>. The managed heap maps every address to the \<^verbatim>\<open>Class\<close> object
  stored there.
\<close>

type_synonym addr = nat

datatype error = Fatal

datatype Throwable = OutOfMemoryError | Exception nat

record Thread =
  thread_id :: nat
  exception :: "Throwable option"

record Runtime =
  class_linker_initialized :: bool
  active_transaction :: bool

record ClassExt =
  ext_addr :: addr
  verify_error :: "Throwable option"

record ArtField =
  field_name :: string
  field_type_descriptor :: string
  dex_field_index :: nat

record ArtMethod =
  method_name :: string
  method_signature :: string
  declaring_class :: addr
  is_default :: bool

record Class =
  status :: int
  ext_data :: "ClassExt option"
  class_size :: "32 word"
  object_size :: "32 word"
  object_size_alloc_fast_path :: "32 word"
  lock_owner_thread_id :: nat
  descriptor :: string
  class_loader :: "addr option"
  component_type :: "addr option"
  super_class :: "addr option"
  direct_interfaces :: "addr option list"
  iftable :: "addr list"
  declared_virtual_methods :: "ArtMethod list"
  copied_methods :: "ArtMethod list"
  sfields :: "ArtField list option"
  is_interface :: bool

type_synonym heap = "addr \<Rightarrow> Class"

text \<open>
  The declarations that class.cc takes from headers outside this file: the enumerators of
  \<^verbatim>\<open>Class::Status\<close> that \<^verbatim>\<open>SetStatus\<close> names (as their integer values),
  \<^verbatim>\<open>kIsDebugBuild\<close>, and the predicates \<^verbatim>\<open>IsTemp\<close>, \<^verbatim>\<open>IsVariableSize\<close>,
  \<^verbatim>\<open>IsFinalizable\<close>, the function \<^verbatim>\<open>RoundUp(_, kObjectAlignment)\<close>, the subtype test
  \<^verbatim>\<open>klass->IsAssignableFrom(src)\<close> (here \<open>IsAssignableFrom d h klass src\<close>) and the
  comparison \<^verbatim>\<open>type != nullptr\<close> of a \<^verbatim>\<open>StringPiece\<close>. They are a parameter of every
  function that uses them.
\<close>

record decls =
  kStatusRetired :: int
  kStatusErrorResolved :: int
  kStatusErrorUnresolved :: int
  kStatusResolved :: int
  kStatusInitialized :: int
  kIsDebugBuild :: bool
  IsTemp :: "Class \<Rightarrow> bool"
  IsVariableSize :: "Class \<Rightarrow> bool"
  IsFinalizable :: "Class \<Rightarrow> bool"
  RoundUpObjectAlignment :: "32 word \<Rightarrow> 32 word"
  IsAssignableFrom :: "heap \<Rightarrow> addr \<Rightarrow> addr \<Rightarrow> bool"
  StringPiece_not_null :: "string \<Rightarrow> bool"

definition bind_err :: "error + 'a \<Rightarrow> ('a \<Rightarrow> error + 'b) \<Rightarrow> error + 'b" where
  "bind_err m f = (case m of Inl e \<Rightarrow> Inl e | Inr x \<Rightarrow> f x)"

text \<open>\<^verbatim>\<open>CHECK(b)\<close> aborts when \<open>b\<close> is false; \<^verbatim>\<open>DCHECK(b)\<close> does so in debug builds only.\<close>

definition CHECK :: "bool \<Rightarrow> error + unit" where
  "CHECK b = (if b then Inr () else Inl Fatal)"

definition DCHECK :: "decls \<Rightarrow> bool \<Rightarrow> error + unit" where
  "DCHECK d b = (if kIsDebugBuild d \<and> \<not> b then Inl Fatal else Inr ())"

section \<open>SetClassSize\<close>

definition SetClassSize :: "decls \<Rightarrow> Class \<Rightarrow> 32 word \<Rightarrow> error + Class" where
  "SetClassSize d c new_class_size =
     (if kIsDebugBuild d \<and> new_class_size < class_size c then Inl Fatal
      else Inr (c\<lparr>class_size := new_class_size\<rparr>))"

section \<open>Extension data\<close>

text \<open>
  Modelled from the spec: the pending-failure channel of the calling thread
  (\<^verbatim>\<open>Thread::AssertPendingException\<close>, \<^verbatim>\<open>Thread::AssertPendingOOMException\<close>; thread.cc is
  not part of the sources): "assert-pending" is fatal when its failure is not pending.
\<close>

definition AssertPendingException :: "Thread \<Rightarrow> error + unit" where
  "AssertPendingException self = CHECK (exception self \<noteq> None)"

definition AssertPendingOOMException :: "Thread \<Rightarrow> error + unit" where
  "AssertPendingOOMException self = CHECK (exception self = Some OutOfMemoryError)"

text \<open>
  Modelled from the spec: \<^verbatim>\<open>ClassExt::Alloc\<close> (class_ext.cc is not part of the sources).
  An allocation needs a thread with no failure pending: the caller clears the pending
  failure first "so an allocation for ExtensionData itself cannot fail on spurious
  pending-exception"; with a failure pending the allocation fails, here fatally. On a
  thread with no failure pending the outcome of the allocation is the parameter
  \<open>alloc\<close>: the fresh record, or \<open>None\<close> when "allocation itself fails", which leaves
  "an out-of-memory condition" pending on the calling thread.
\<close>

definition ClassExt_Alloc ::
  "ClassExt option \<Rightarrow> Thread \<Rightarrow> error + (ClassExt option \<times> Thread)" where
  "ClassExt_Alloc alloc self =
     (if exception self \<noteq> None then Inl Fatal
      else case alloc of
             None \<Rightarrow> Inr (None, self\<lparr>exception := Some OutOfMemoryError\<rparr>)
           | Some new_ext \<Rightarrow> Inr (Some new_ext, self))"

text \<open>
  The strong compare-and-swap of the \<^verbatim>\<open>ext_data_\<close> field: it stores \<open>new\<close> and answers
  \<open>True\<close> exactly when the field holds \<open>expected\<close>.
\<close>

definition CasExtData :: "Class \<Rightarrow> ClassExt option \<Rightarrow> ClassExt option \<Rightarrow> bool \<times> Class" where
  "CasExtData c expected new =
     (if ext_data c = expected then (True, c\<lparr>ext_data := new\<rparr>) else (False, c))"

text \<open>
  What the other threads do to the slot between this thread's first read of it and its
  compare-and-swap is the parameter \<open>racer\<close>: \<open>Some w\<close> when another installer's
  compare-and-swap from empty to \<open>w\<close> came first. The slot is written nowhere else.
\<close>

definition interfere :: "ClassExt option \<Rightarrow> Class \<Rightarrow> Class" where
  "interfere racer c =
     (case racer of None \<Rightarrow> c | Some w \<Rightarrow> snd (CasExtData c None (Some w)))"

definition EnsureExtDataPresent ::
  "decls \<Rightarrow> ClassExt option \<Rightarrow> ClassExt option \<Rightarrow> Class \<Rightarrow> Thread \<Rightarrow>
     error + (ClassExt option \<times> Class \<times> Thread)" where
  "EnsureExtDataPresent d alloc racer this self =
     (case ext_data this of
        Some existing \<Rightarrow> Inr (Some existing, this, self)
      | None \<Rightarrow>
          (let throwable = exception self;
               self1 = self\<lparr>exception := None\<rparr>
           in bind_err (ClassExt_Alloc alloc self1) (\<lambda>(new_ext, self2).
              let h_this = interfere racer this
              in case new_ext of
                   None \<Rightarrow>
                     bind_err (AssertPendingOOMException self2) (\<lambda>_. Inr (None, h_this, self2))
                 | Some fresh \<Rightarrow>
                     (let (set, h_this') = CasExtData h_this None (Some fresh);
                          ret = (if set then Some fresh else ext_data h_this')
                      in bind_err (DCHECK d (\<not> set \<or> ext_data h_this' = Some fresh)) (\<lambda>_.
                         bind_err (CHECK (ret \<noteq> None)) (\<lambda>_.
                           Inr (ret, h_this',
                                (case throwable of None \<Rightarrow> self2
                                 | Some t \<Rightarrow> self2\<lparr>exception := Some t\<rparr>))))))))"

section \<open>Concurrent installers\<close>

text \<open>
  \<^verbatim>\<open>EnsureExtDataPresent\<close> run by any number of threads on one class, one atomic access
  of the slot at a time: the first read of the slot, the allocation, the compare-and-swap
  from empty, and the second read after a failed compare-and-swap. \<open>at c t\<close> is where
  thread \<open>t\<close> stands.
\<close>

datatype installer =
    Entered
  | Allocated ClassExt
  | CasFailed
  | Returned "ClassExt option"

record installers =
  slot :: "ClassExt option"
  at :: "nat \<Rightarrow> installer"

inductive install_step :: "installers \<Rightarrow> installers \<Rightarrow> bool" where
  read_present:
    "at c t = Entered \<Longrightarrow> slot c = Some existing \<Longrightarrow>
     install_step c (c\<lparr>at := (at c)(t := Returned (Some existing))\<rparr>)"
| alloc_fresh:
    "at c t = Entered \<Longrightarrow> slot c = None \<Longrightarrow>
     install_step c (c\<lparr>at := (at c)(t := Allocated fresh)\<rparr>)"
| alloc_fails:
    "at c t = Entered \<Longrightarrow> slot c = None \<Longrightarrow>
     install_step c (c\<lparr>at := (at c)(t := Returned None)\<rparr>)"
| cas_wins:
    "at c t = Allocated fresh \<Longrightarrow> slot c = None \<Longrightarrow>
     install_step c (c\<lparr>slot := Some fresh, at := (at c)(t := Returned (Some fresh))\<rparr>)"
| cas_loses:
    "at c t = Allocated fresh \<Longrightarrow> slot c \<noteq> None \<Longrightarrow>
     install_step c (c\<lparr>at := (at c)(t := CasFailed)\<rparr>)"
| read_winner:
    "at c t = CasFailed \<Longrightarrow>
     install_step c (c\<lparr>at := (at c)(t := Returned (slot c))\<rparr>)"

definition installers_ok :: "installers \<Rightarrow> bool" where
  "installers_ok c \<longleftrightarrow>
     (\<forall>t. (at c t = CasFailed \<longrightarrow> slot c \<noteq> None) \<and>
          (\<forall>r. at c t = Returned (Some r) \<longrightarrow> slot c = Some r))"

section \<open>The status state machine\<close>

text \<open>
  Modelled from the spec: \<^verbatim>\<open>Class::IsErroneous\<close> (class.h is not part of the sources):
  a status is erroneous when it is one of the two error statuses.
\<close>

definition IsErroneous :: "decls \<Rightarrow> int \<Rightarrow> bool" where
  "IsErroneous d s \<longleftrightarrow> s = kStatusErrorUnresolved d \<or> s = kStatusErrorResolved d"

text \<open>The checks made on entry while the class linker is initialized (lines 117-131).\<close>

definition SetStatus_checks :: "decls \<Rightarrow> Runtime \<Rightarrow> Class \<Rightarrow> int \<Rightarrow> Thread \<Rightarrow> error + unit" where
  "SetStatus_checks d rt h_this new_status self =
     (let old_status = status h_this in
      if class_linker_initialized rt then
        (if new_status \<le> old_status \<and>
            new_status \<noteq> kStatusErrorUnresolved d \<and>
            new_status \<noteq> kStatusErrorResolved d \<and>
            new_status \<noteq> kStatusRetired d
         then Inl Fatal
         else if new_status \<ge> kStatusResolved d \<or> old_status \<ge> kStatusResolved d
         then CHECK (lock_owner_thread_id h_this = thread_id self)
         else Inr ())
      else Inr ())"

text \<open>
  Marking the class erroneous (lines 132-153). \<^verbatim>\<open>ext->SetVerifyError\<close> writes through the
  pointer that \<^verbatim>\<open>EnsureExtDataPresent\<close> returned, which is the record in the slot. The
  logging of lines 138-143 changes nothing.
\<close>

definition SetStatus_erroneous ::
  "decls \<Rightarrow> ClassExt option \<Rightarrow> ClassExt option \<Rightarrow> Class \<Rightarrow> int \<Rightarrow> Thread \<Rightarrow> error + (Class \<times> Thread)" where
  "SetStatus_erroneous d alloc racer h_this new_status self =
     (let old_status = status h_this in
      if IsErroneous d new_status then
        bind_err (CHECK (\<not> IsErroneous d (status h_this))) (\<lambda>_.
        bind_err (CHECK ((new_status = kStatusErrorResolved d) = (old_status \<ge> kStatusResolved d))) (\<lambda>_.
        bind_err (EnsureExtDataPresent d alloc racer h_this self) (\<lambda>(ext, c, self').
        bind_err
          (case ext of
             Some e \<Rightarrow>
               bind_err (AssertPendingException self') (\<lambda>_.
                 Inr (c\<lparr>ext_data := Some (e\<lparr>verify_error := exception self'\<rparr>)\<rparr>))
           | None \<Rightarrow>
               bind_err (AssertPendingOOMException self') (\<lambda>_. Inr c)) (\<lambda>c'.
        bind_err (AssertPendingException self') (\<lambda>_. Inr (c', self'))))))
      else Inr (h_this, self))"

text \<open>Caching the allocation fast-path size after the status write (lines 165-171).\<close>

definition SetStatus_fast_path :: "decls \<Rightarrow> Class \<Rightarrow> int \<Rightarrow> error + Class" where
  "SetStatus_fast_path d h_this new_status =
     (if new_status = kStatusInitialized d \<and> \<not> IsVariableSize d h_this then
        bind_err (DCHECK d (object_size_alloc_fast_path h_this = - 1)) (\<lambda>_.
          if \<not> IsFinalizable d h_this
          then Inr (h_this\<lparr>object_size_alloc_fast_path := RoundUpObjectAlignment d (object_size h_this)\<rparr>)
          else Inr h_this)
      else Inr h_this)"

text \<open>
  Waiter notification (lines 173-193). The answer says whether \<^verbatim>\<open>NotifyAll\<close> was called
  on the monitor of the class.
\<close>

definition SetStatus_notify :: "decls \<Rightarrow> Runtime \<Rightarrow> Class \<Rightarrow> int \<Rightarrow> int \<Rightarrow> error + bool" where
  "SetStatus_notify d rt h_this old_status new_status =
     (if \<not> class_linker_initialized rt then Inr False
      else if IsTemp d h_this then
        bind_err (CHECK (new_status < kStatusResolved d)) (\<lambda>_.
          Inr (new_status = kStatusRetired d \<or> new_status = kStatusErrorUnresolved d))
      else
        bind_err (CHECK (new_status \<noteq> kStatusRetired d)) (\<lambda>_.
          Inr (old_status \<ge> kStatusResolved d \<or> new_status \<ge> kStatusResolved d)))"

text \<open>
  \<^verbatim>\<open>Class::SetStatus\<close>. Both branches on \<^verbatim>\<open>IsActiveTransaction\<close> store the same value
  in the status field. The result is the class, the calling thread, and whether the
  waiters were notified.
\<close>

definition SetStatus ::
  "decls \<Rightarrow> Runtime \<Rightarrow> ClassExt option \<Rightarrow> ClassExt option \<Rightarrow> Class \<Rightarrow> int \<Rightarrow> Thread \<Rightarrow>
     error + (Class \<times> Thread \<times> bool)" where
  "SetStatus d rt alloc racer h_this new_status self =
     (let old_status = status h_this in
      bind_err (SetStatus_checks d rt h_this new_status self) (\<lambda>_.
      bind_err (SetStatus_erroneous d alloc racer h_this new_status self) (\<lambda>(c1, self').
      let c2 = (if active_transaction rt then c1\<lparr>status := new_status\<rparr>
                else c1\<lparr>status := new_status\<rparr>) in
      bind_err (SetStatus_fast_path d c2 new_status) (\<lambda>c3.
      bind_err (SetStatus_notify d rt c3 old_status new_status) (\<lambda>notified.
        Inr (c3, self', notified))))))"

section \<open>Declared-field lookup\<close>

text \<open>
  Modelled from the spec: \<^verbatim>\<open>StringPiece::Compare\<close> (stringpiece.h is not part of the
  sources), the three-way comparison behind "the (name, then type) comparison key":
  negative, zero or positive as the receiver is below, equal to or above the argument in
  the bytewise lexicographic order of strings.
\<close>

definition Compare :: "string \<Rightarrow> string \<Rightarrow> int" where
  "Compare a b = (if a < b then - 1 else if a = b then 0 else 1)"

text \<open>
  The binary search of \<^verbatim>\<open>FindFieldByNameAndType\<close> (lines 718-738). A pointer into the
  array is the index of its entry. \<open>low\<close> and \<open>high\<close> never exceed the length of the
  array, which is a 32-bit count of entries held in memory, so \<open>low + high\<close> does not
  wrap in a \<^verbatim>\<open>size_t\<close>.
\<close>

function FindFieldByNameAndType_search ::
  "ArtField list \<Rightarrow> string \<Rightarrow> string \<Rightarrow> nat \<Rightarrow> nat \<Rightarrow> nat option" where
  "FindFieldByNameAndType_search fs name type low high =
     (if low < high then
        (let mid = (low + high) div 2;
             field = fs ! mid;
             result = Compare (field_name field) name;
             result = (if result = 0 then Compare (field_type_descriptor field) type else result)
         in if result < 0 then FindFieldByNameAndType_search fs name type (mid + 1) high
            else if result > 0 then FindFieldByNameAndType_search fs name type low mid
            else Some mid)
      else None)"
  by pat_completeness auto
termination
  by (relation "measure (\<lambda>(fs, name, type, low, high). high - low)") auto

declare FindFieldByNameAndType_search.simps [simp del]

text \<open>The linear scan of the debug cross-check (lines 740-746).\<close>

fun FindFieldByNameAndType_scan :: "ArtField list \<Rightarrow> string \<Rightarrow> string \<Rightarrow> nat option" where
  "FindFieldByNameAndType_scan [] name type = None"
| "FindFieldByNameAndType_scan (field # fs) name type =
     (if name = field_name field \<and> type = field_type_descriptor field then Some 0
      else map_option Suc (FindFieldByNameAndType_scan fs name type))"

definition FindFieldByNameAndType ::
  "decls \<Rightarrow> ArtField list option \<Rightarrow> string \<Rightarrow> string \<Rightarrow> error + nat option" where
  "FindFieldByNameAndType d fields_ptr name type =
     (case fields_ptr of
        None \<Rightarrow> Inr None
      | Some fs \<Rightarrow>
          (let ret = FindFieldByNameAndType_search fs name type 0 (length fs) in
           bind_err (if kIsDebugBuild d
                     then CHECK (FindFieldByNameAndType_scan fs name type = ret)
                     else Inr ()) (\<lambda>_. Inr ret)))"

definition FindDeclaredStaticField :: "decls \<Rightarrow> Class \<Rightarrow> string \<Rightarrow> string \<Rightarrow> error + nat option" where
  "FindDeclaredStaticField d c name type =
     bind_err (DCHECK d (StringPiece_not_null d type)) (\<lambda>_.
       FindFieldByNameAndType d (sfields c) name type)"

text \<open>The order of the table: by name, then by type descriptor.\<close>

definition field_key_less :: "ArtField \<Rightarrow> ArtField \<Rightarrow> bool" where
  "field_key_less f g \<longleftrightarrow>
     field_name f < field_name g \<or>
     (field_name f = field_name g \<and> field_type_descriptor f < field_type_descriptor g)"

definition field_key_le :: "ArtField \<Rightarrow> ArtField \<Rightarrow> bool" where
  "field_key_le f g \<longleftrightarrow>
     field_name f < field_name g \<or>
     (field_name f = field_name g \<and> field_type_descriptor f \<le> field_type_descriptor g)"

definition fields_sorted :: "ArtField list \<Rightarrow> bool" where
  "fields_sorted fs = sorted_wrt field_key_le fs"

definition fields_strictly_sorted :: "ArtField list \<Rightarrow> bool" where
  "fields_strictly_sorted fs = sorted_wrt field_key_less fs"

section \<open>Static-field resolution\<close>

text \<open>
  \<^verbatim>\<open>Class::FindStaticField(self, klass, name, type)\<close> (lines 808-831). The answers of
  \<^verbatim>\<open>GetDirectInterface(self, k, i)\<close> for \<open>i\<close> below \<^verbatim>\<open>k->NumDirectInterfaces()\<close> are
  the list \<open>direct_interfaces\<close> of the class; an unresolved interface is \<open>None\<close>. An
  \<^verbatim>\<open>ArtField*\<close> is the address of the class that holds the table and the index of the
  entry. The function recurses through the heap, so it is a partial function: \<open>None\<close>
  is a walk that never returns. \<open>Level k\<close> is the head of the loop over the superclass
  chain, \<open>Interfaces k i\<close> the head of the loop over the direct interfaces of \<open>k\<close>.
\<close>

datatype work = Level "addr option" | Interfaces addr nat

partial_function (option) FindStaticField_walk ::
  "decls \<Rightarrow> heap \<Rightarrow> string \<Rightarrow> string \<Rightarrow> work \<Rightarrow> (error + (addr \<times> nat) option) option" where
  "FindStaticField_walk d h name type w =
     (case w of
        Level None \<Rightarrow> Some (Inr None)
      | Level (Some k) \<Rightarrow>
          (case FindDeclaredStaticField d (h k) name type of
             Inl e \<Rightarrow> Some (Inl e)
           | Inr (Some f) \<Rightarrow> Some (Inr (Some (k, f)))
           | Inr None \<Rightarrow> FindStaticField_walk d h name type (Interfaces k 0))
      | Interfaces k i \<Rightarrow>
          (if i \<noteq> length (direct_interfaces (h k)) then
             (let interface = direct_interfaces (h k) ! i in
              if kIsDebugBuild d \<and> interface = None then Some (Inl Fatal)
              else Option.bind (FindStaticField_walk d h name type (Level interface))
                     (\<lambda>r. case r of
                        Inl e \<Rightarrow> Some (Inl e)
                      | Inr (Some f) \<Rightarrow> Some (Inr (Some f))
                      | Inr None \<Rightarrow> FindStaticField_walk d h name type (Interfaces k (i + 1))))
           else FindStaticField_walk d h name type (Level (super_class (h k)))))"

definition FindStaticField ::
  "decls \<Rightarrow> heap \<Rightarrow> addr option \<Rightarrow> string \<Rightarrow> string \<Rightarrow> (error + (addr \<times> nat) option) option" where
  "FindStaticField d h klass name type = FindStaticField_walk d h name type (Level klass)"

text \<open>
  The order in which the code visits the classes: the queried type first, then the
  search of each of its direct interfaces in order, each such search being the same walk
  started at the interface (line 824), then the walk of the superclass.
  \<open>walk_order h k ks\<close> holds when the walk from \<open>k\<close> visits exactly the classes
  \<open>ks\<close>, in this order.
\<close>

inductive walk_order :: "heap \<Rightarrow> addr option \<Rightarrow> addr list \<Rightarrow> bool" for h :: heap where
  walk_null: "walk_order h None []"
| walk_class:
    "list_all2 (walk_order h) (direct_interfaces (h k)) iss \<Longrightarrow>
     walk_order h (super_class (h k)) ss \<Longrightarrow>
     walk_order h (Some k) (k # concat iss @ ss)"

text \<open>
  The order as the specification words it. The search of an interface visits the
  interface and, transitively, its superinterfaces (\<open>interface_order\<close>); the walk
  visits the queried type, then the search of each of its direct interfaces in order,
  then the walk of the superclass (\<open>claimed_walk_order\<close>).
\<close>

inductive interface_order :: "heap \<Rightarrow> addr option \<Rightarrow> addr list \<Rightarrow> bool" for h :: heap where
  interface_null: "interface_order h None []"
| interface_class:
    "list_all2 (interface_order h) (direct_interfaces (h k)) iss \<Longrightarrow>
     interface_order h (Some k) (k # concat iss)"

inductive claimed_walk_order :: "heap \<Rightarrow> addr option \<Rightarrow> addr list \<Rightarrow> bool" for h :: heap where
  claimed_null: "claimed_walk_order h None []"
| claimed_class:
    "list_all2 (interface_order h) (direct_interfaces (h k)) iss \<Longrightarrow>
     claimed_walk_order h (super_class (h k)) ss \<Longrightarrow>
     claimed_walk_order h (Some k) (k # concat iss @ ss)"

text \<open>The first declared static field found along a list of classes.\<close>

fun first_found ::
  "decls \<Rightarrow> heap \<Rightarrow> string \<Rightarrow> string \<Rightarrow> addr list \<Rightarrow> error + (addr \<times> nat) option" where
  "first_found d h name type [] = Inr None"
| "first_found d h name type (k # ks) =
     (case FindDeclaredStaticField d (h k) name type of
        Inl e \<Rightarrow> Inl e
      | Inr (Some f) \<Rightarrow> Inr (Some (k, f))
      | Inr None \<Rightarrow> first_found d h name type ks)"

definition interfaces_resolved :: "heap \<Rightarrow> addr list \<Rightarrow> bool" where
  "interfaces_resolved h ks = list_all (\<lambda>k. list_all (\<lambda>i. i \<noteq> None) (direct_interfaces (h k))) ks"

section \<open>Interface default-method conflict resolution\<close>

text \<open>
  Modelled from the spec: \<^verbatim>\<open>ArtMethod::HasSameNameAndSignature\<close> (art_method.cc is not
  part of the sources): a "same-name-and-signature match".
\<close>

definition HasSameNameAndSignature :: "ArtMethod \<Rightarrow> ArtMethod \<Rightarrow> bool" where
  "HasSameNameAndSignature m other \<longleftrightarrow>
     method_name m = method_name other \<and> method_signature m = method_signature other"

text \<open>
  Modelled from the spec: \<^verbatim>\<open>Class::GetVirtualMethods\<close> and
  \<^verbatim>\<open>Class::GetDeclaredVirtualMethods\<close> (class-inl.h is not part of the sources): the
  virtual methods of a type are its declared virtual methods followed by the methods "the
  loader copied down".
\<close>

definition GetVirtualMethods :: "Class \<Rightarrow> ArtMethod list" where
  "GetVirtualMethods c = declared_virtual_methods c @ copied_methods c"

text \<open>The first loop (lines 640-644).\<close>

fun find_own_virtual_method :: "ArtMethod \<Rightarrow> ArtMethod list \<Rightarrow> ArtMethod option" where
  "find_own_virtual_method method [] = None"
| "find_own_virtual_method method (iface_method # rest) =
     (if HasSameNameAndSignature method iface_method then Some iface_method
      else find_own_virtual_method method rest)"

text \<open>The loop over \<^verbatim>\<open>abstract_methods\<close> that decides \<^verbatim>\<open>overridden\<close> (lines 673-680).\<close>

fun overridden_loop ::
  "decls \<Rightarrow> heap \<Rightarrow> addr \<Rightarrow> ArtMethod \<Rightarrow> ArtMethod list \<Rightarrow> error + bool" where
  "overridden_loop d h iface current_method [] = Inr False"
| "overridden_loop d h iface current_method (possible_override # rest) =
     bind_err (DCHECK d (HasSameNameAndSignature possible_override current_method)) (\<lambda>_.
       if IsAssignableFrom d h iface (declaring_class possible_override) then Inr True
       else overridden_loop d h iface current_method rest)"

text \<open>
  The loop over the declared virtual methods of one interface (lines 664-690): \<open>Inl m\<close>
  is \<^verbatim>\<open>return m\<close>, \<open>Inr abstract_methods\<close> the vector when the loop ends.
\<close>

fun scan_interface ::
  "decls \<Rightarrow> heap \<Rightarrow> ArtMethod \<Rightarrow> addr \<Rightarrow> ArtMethod list \<Rightarrow> ArtMethod list \<Rightarrow>
     error + (ArtMethod + ArtMethod list)" where
  "scan_interface d h method iface [] abstract_methods = Inr (Inr abstract_methods)"
| "scan_interface d h method iface (current_method # rest) abstract_methods =
     (if HasSameNameAndSignature current_method method then
        (if is_default current_method then
           bind_err (overridden_loop d h iface current_method abstract_methods) (\<lambda>overridden.
             if \<not> overridden then Inr (Inl current_method)
             else scan_interface d h method iface rest abstract_methods)
         else scan_interface d h method iface rest (abstract_methods @ [current_method]))
      else scan_interface d h method iface rest abstract_methods)"

text \<open>
  The loop over the interface table, \<open>k\<close> running from the count down to zero
  (lines 658-691), and the final return (line 696).
\<close>

fun scan_iftable ::
  "decls \<Rightarrow> heap \<Rightarrow> ArtMethod \<Rightarrow> addr list \<Rightarrow> nat \<Rightarrow> ArtMethod list \<Rightarrow> error + ArtMethod option" where
  "scan_iftable d h method ift 0 abstract_methods =
     Inr (if abstract_methods = [] then None else Some (abstract_methods ! 0))"
| "scan_iftable d h method ift (Suc k) abstract_methods =
     bind_err (DCHECK d (k < length ift)) (\<lambda>_.
       (let iface = ift ! k in
        bind_err (scan_interface d h method iface (declared_virtual_methods (h iface)) abstract_methods)
          (\<lambda>r. case r of
             Inl m \<Rightarrow> Inr (Some m)
           | Inr abstract_methods' \<Rightarrow> scan_iftable d h method ift k abstract_methods')))"

definition FindVirtualMethodForInterfaceSuper ::
  "decls \<Rightarrow> heap \<Rightarrow> addr \<Rightarrow> ArtMethod \<Rightarrow> error + ArtMethod option" where
  "FindVirtualMethodForInterfaceSuper d h this method =
     bind_err (DCHECK d (is_interface (h (declaring_class method)))) (\<lambda>_.
     bind_err (DCHECK d (is_interface (h this))) (\<lambda>_.
       case find_own_virtual_method method (GetVirtualMethods (h this)) of
         Some iface_method \<Rightarrow> Inr (Some iface_method)
       | None \<Rightarrow>
           scan_iftable d h method (iftable (h this)) (length (iftable (h this))) []))"

text \<open>
  The result as the specification words it. The scan visits the interface table from
  index count-1 down to 0 and, within each interface, its declared virtual methods;
  \<open>scan_matches\<close> are the visited methods with the name and signature of the query, each
  with its interface, in the order of the visit.
\<close>

definition scan_matches :: "heap \<Rightarrow> addr \<Rightarrow> ArtMethod \<Rightarrow> (addr \<times> ArtMethod) list" where
  "scan_matches h this method =
     filter (\<lambda>(iface, m). HasSameNameAndSignature m method)
       (concat (map (\<lambda>iface. map (Pair iface) (declared_virtual_methods (h iface)))
                    (rev (iftable (h this)))))"

text \<open>The abstract candidates collected before position \<open>n\<close> of the matches.\<close>

definition candidates_before :: "(addr \<times> ArtMethod) list \<Rightarrow> nat \<Rightarrow> ArtMethod list" where
  "candidates_before ms n = map snd (filter (\<lambda>(iface, m). \<not> is_default m) (take n ms))"

text \<open>
  The match at position \<open>n\<close> is overridden when some candidate collected before it is
  declared on a subtype of the interface of the match.
\<close>

definition match_overridden :: "decls \<Rightarrow> heap \<Rightarrow> (addr \<times> ArtMethod) list \<Rightarrow> nat \<Rightarrow> bool" where
  "match_overridden d h ms n =
     list_ex (\<lambda>a. IsAssignableFrom d h (fst (ms ! n)) (declaring_class a)) (candidates_before ms n)"

text \<open>
  The choice of the specification over a given list of the type's own methods: the first
  own method with the name and signature of the query; otherwise the first default match
  of the scan that is not overridden; otherwise the first abstract candidate, or none.
\<close>

definition interface_super_choice ::
  "decls \<Rightarrow> heap \<Rightarrow> ArtMethod list \<Rightarrow> addr \<Rightarrow> ArtMethod \<Rightarrow> ArtMethod option" where
  "interface_super_choice d h own this method =
     (case List.find (\<lambda>m. HasSameNameAndSignature m method) own of
        Some m \<Rightarrow> Some m
      | None \<Rightarrow>
          (let ms = scan_matches h this method in
           case List.find (\<lambda>n. is_default (snd (ms ! n)) \<and> \<not> match_overridden d h ms n)
                  [0..<length ms] of
             Some n \<Rightarrow> Some (snd (ms ! n))
           | None \<Rightarrow>
               (case candidates_before ms (length ms) of
                  [] \<Rightarrow> None
                | a # _ \<Rightarrow> Some a)))"

text \<open>
  The choice over the virtual methods of the type, the declared ones and the ones copied
  into it, and the choice over its declared virtual methods alone.
\<close>

definition interface_super_spec :: "decls \<Rightarrow> heap \<Rightarrow> addr \<Rightarrow> ArtMethod \<Rightarrow> ArtMethod option" where
  "interface_super_spec d h this method =
     interface_super_choice d h (GetVirtualMethods (h this)) this method"

definition interface_super_declared_only ::
  "decls \<Rightarrow> heap \<Rightarrow> addr \<Rightarrow> ArtMethod \<Rightarrow> ArtMethod option" where
  "interface_super_declared_only d h this method =
     interface_super_choice d h (declared_virtual_methods (h this)) this method"

section \<open>Same-package membership\<close>

text \<open>
  Modelled from the spec: \<^verbatim>\<open>StringPiece::find(c, pos)\<close> (stringpiece.h is not part of
  the sources): the first position at or after \<open>pos\<close> that holds \<open>c\<close>; \<open>None\<close> is
  \<^verbatim>\<open>npos\<close>.
\<close>

definition StringPiece_find :: "string \<Rightarrow> char \<Rightarrow> nat \<Rightarrow> nat option" where
  "StringPiece_find s c pos =
     (if c \<in> set (drop pos s)
      then Some (pos + length (takeWhile (\<lambda>x. x \<noteq> c) (drop pos s)))
      else None)"

text \<open>The loop of lines 354-356.\<close>

function IsInSamePackage_loop :: "string \<Rightarrow> string \<Rightarrow> nat \<Rightarrow> nat \<Rightarrow> nat" where
  "IsInSamePackage_loop descriptor1 descriptor2 min_length i =
     (if i < min_length \<and> descriptor1 ! i = descriptor2 ! i
      then IsInSamePackage_loop descriptor1 descriptor2 min_length (i + 1)
      else i)"
  by pat_completeness auto
termination
  by (relation "measure (\<lambda>(descriptor1, descriptor2, min_length, i). min_length - i)") auto

declare IsInSamePackage_loop.simps [simp del]

definition IsInSamePackage_descriptors :: "string \<Rightarrow> string \<Rightarrow> bool" where
  "IsInSamePackage_descriptors descriptor1 descriptor2 =
     (let min_length = min (length descriptor1) (length descriptor2);
          i = IsInSamePackage_loop descriptor1 descriptor2 min_length 0
      in if StringPiece_find descriptor1 (CHR ''/'') i \<noteq> None \<or>
            StringPiece_find descriptor2 (CHR ''/'') i \<noteq> None
         then False else True)"

text \<open>
  Modelled from the spec: \<^verbatim>\<open>Class::IsArrayClass\<close> (class-inl.h is not part of the
  sources): an array type is a type with an element type.
\<close>

definition IsArrayClass :: "Class \<Rightarrow> bool" where
  "IsArrayClass c \<longleftrightarrow> component_type c \<noteq> None"

text \<open>
  The loops of lines 376-381. They follow pointers through the heap, so the function is
  partial: \<open>None\<close> is a loop that never ends.
\<close>

partial_function (option) strip_array_classes :: "heap \<Rightarrow> addr \<Rightarrow> addr option" where
  "strip_array_classes h klass =
     (if IsArrayClass (h klass)
      then (case component_type (h klass) of
              Some c \<Rightarrow> strip_array_classes h c
            | None \<Rightarrow> Some klass)
      else Some klass)"

text \<open>
  \<^verbatim>\<open>Class::IsInSamePackage(that)\<close> (lines 365-389). \<^verbatim>\<open>GetDescriptor\<close> is called on types
  that are not arrays only, where it answers the descriptor stored for the type.
\<close>

definition IsInSamePackage :: "heap \<Rightarrow> addr \<Rightarrow> addr \<Rightarrow> bool option" where
  "IsInSamePackage h this that =
     (if this = that then Some True
      else if class_loader (h this) \<noteq> class_loader (h that) then Some False
      else
        (case strip_array_classes h this of
           None \<Rightarrow> None
         | Some klass1 \<Rightarrow>
             (case strip_array_classes h that of
                None \<Rightarrow> None
              | Some klass2 \<Rightarrow>
                  if klass1 = klass2 then Some True
                  else Some (IsInSamePackage_descriptors
                               (descriptor (h klass1)) (descriptor (h klass2))))))"

text \<open>The package prefix of a descriptor: the string up to its last \<open>/\<close>, the \<open>/\<close> included.\<close>

definition package_prefix :: "string \<Rightarrow> string" where
  "package_prefix s = rev (dropWhile (\<lambda>c. c \<noteq> CHR ''/'') (rev s))"

text \<open>
  The innermost element type of a type, as the specification words it: a type that is not
  an array is its own; the one of an array type is the one of its element type.
\<close>

inductive element_type :: "heap \<Rightarrow> addr \<Rightarrow> addr \<Rightarrow> bool" for h :: heap where
  element_self: "component_type (h k) = None \<Longrightarrow> element_type h k k"
| element_step: "component_type (h k) = Some c \<Longrightarrow> element_type h c e \<Longrightarrow> element_type h k e"

section \<open>Comparison keys\<close>

text \<open>
  The value of \<^verbatim>\<open>result\<close> in the binary search, and what its sign says of an entry
  against the key of the query.
\<close>

definition key_compare :: "ArtField \<Rightarrow> string \<Rightarrow> string \<Rightarrow> int" where
  "key_compare field name type =
     (let result = Compare (field_name field) name
      in if result = 0 then Compare (field_type_descriptor field) type else result)"

definition key_match :: "ArtField \<Rightarrow> string \<Rightarrow> string \<Rightarrow> bool" where
  "key_match f name type \<longleftrightarrow> name = field_name f \<and> type = field_type_descriptor f"

definition key_below :: "ArtField \<Rightarrow> string \<Rightarrow> string \<Rightarrow> bool" where
  "key_below f name type \<longleftrightarrow>
     field_name f < name \<or> (field_name f = name \<and> field_type_descriptor f < type)"

definition key_above :: "ArtField \<Rightarrow> string \<Rightarrow> string \<Rightarrow> bool" where
  "key_above f name type \<longleftrightarrow>
     name < field_name f \<or> (field_name f = name \<and> type < field_type_descriptor f)"

section \<open>The scan over the list of matches\<close>

text \<open>
  The two nested loops of the scan as one pass over the matches in the order of the
  visit, with the vector of abstract candidates.
\<close>

fun flat_scan :: "decls \<Rightarrow> heap \<Rightarrow> (addr \<times> ArtMethod) list \<Rightarrow> ArtMethod list \<Rightarrow> ArtMethod option" where
  "flat_scan d h [] abstract_methods =
     (case abstract_methods of [] \<Rightarrow> None | a # _ \<Rightarrow> Some a)"
| "flat_scan d h ((iface, m) # ms) abstract_methods =
     (if is_default m then
        (if list_ex (\<lambda>a. IsAssignableFrom d h iface (declaring_class a)) abstract_methods
         then flat_scan d h ms abstract_methods
         else Some m)
      else flat_scan d h ms (abstract_methods @ [m]))"

definition matches_of :: "ArtMethod \<Rightarrow> addr \<Rightarrow> ArtMethod list \<Rightarrow> (addr \<times> ArtMethod) list" where
  "matches_of method iface ms =
     map (Pair iface) (filter (\<lambda>m. HasSameNameAndSignature m method) ms)"

section \<open>Example inputs\<close>

text \<open>
  Modelled from the spec: one assignment of the declarations that class.h and the other
  headers hold (they are not part of the sources). The forward states of the status
  machine are numbered from \<open>NotReady = 0\<close> in the order the specification lists them
  (\<open>Resolved = 4\<close>, \<open>Verifying = 5\<close>, \<open>Initialized = 9\<close>); the three targets of the
  sanctioned regressions lie below \<open>NotReady\<close>. The build is a debug build and the
  instances are regular ones. The theorems below hold for every assignment; this one
  serves the concrete inputs.
\<close>

definition example_decls :: decls where
  "example_decls =
     \<lparr>kStatusRetired = - 3, kStatusErrorResolved = - 2, kStatusErrorUnresolved = - 1,
      kStatusResolved = 4, kStatusInitialized = 9, kIsDebugBuild = True,
      IsTemp = (\<lambda>c. False), IsVariableSize = (\<lambda>c. False), IsFinalizable = (\<lambda>c. False),
      RoundUpObjectAlignment = (\<lambda>n. (n + 7) div 8 * 8),
      IsAssignableFrom = (\<lambda>h klass src. klass = src \<or> klass \<in> set (iftable (h src))),
      StringPiece_not_null = (\<lambda>s. s \<noteq> [])\<rparr>"

definition example_class :: Class where
  "example_class =
     \<lparr>status = 0, ext_data = None, class_size = 0, object_size = 0,
      object_size_alloc_fast_path = - 1, lock_owner_thread_id = 1, descriptor = ''LA;'',
      class_loader = None, component_type = None, super_class = None,
      direct_interfaces = [], iftable = [], declared_virtual_methods = [],
      copied_methods = [], sfields = None, is_interface = False\<rparr>"

definition example_thread :: Thread where
  "example_thread = \<lparr>thread_id = 1, exception = Some (Exception 7)\<rparr>"

definition example_runtime :: Runtime where
  "example_runtime = \<lparr>class_linker_initialized = True, active_transaction = False\<rparr>"

definition example_ext :: ClassExt where
  "example_ext = \<lparr>ext_addr = 100, verify_error = None\<rparr>"

definition example_fields :: "ArtField list" where
  "example_fields =
     [\<lparr>field_name = ''count'', field_type_descriptor = ''I'', dex_field_index = 0\<rparr>,
      \<lparr>field_name = ''count'', field_type_descriptor = ''J'', dex_field_index = 1\<rparr>,
      \<lparr>field_name = ''name'', field_type_descriptor = ''Ljava/lang/String;'', dex_field_index = 2\<rparr>]"

definition duplicate_fields :: "ArtField list" where
  "duplicate_fields =
     [\<lparr>field_name = ''count'', field_type_descriptor = ''I'', dex_field_index = 0\<rparr>,
      \<lparr>field_name = ''count'', field_type_descriptor = ''I'', dex_field_index = 1\<rparr>]"

definition package_heap :: heap where
  "package_heap =
     (\<lambda>_. example_class)
       (1 := example_class\<lparr>descriptor := ''Ljava/lang/String;''\<rparr>,
        2 := example_class\<lparr>descriptor := ''Ljava/lang/Object;''\<rparr>,
        3 := example_class\<lparr>descriptor := ''[Ljava/lang/String;'', component_type := Some 1\<rparr>,
        4 := example_class\<lparr>descriptor := ''Ljava/util/List;''\<rparr>)"

definition field_heap :: heap where
  "field_heap =
     (\<lambda>_. example_class)
       (10 := example_class\<lparr>descriptor := ''Ljava/lang/Object;''\<rparr>,
        11 := example_class\<lparr>descriptor := ''LI;'', is_interface := True, super_class := Some 10,
                direct_interfaces := [Some 12],
                sfields := Some [\<lparr>field_name = ''x'', field_type_descriptor = ''I'', dex_field_index = 0\<rparr>]\<rparr>,
        12 := example_class\<lparr>descriptor := ''LJ;'', is_interface := True, super_class := Some 10,
                sfields := Some [\<lparr>field_name = ''y'', field_type_descriptor = ''I'', dex_field_index = 1\<rparr>]\<rparr>,
        13 := example_class\<lparr>descriptor := ''LB;'', super_class := Some 10,
                sfields := Some [\<lparr>field_name = ''y'', field_type_descriptor = ''I'', dex_field_index = 2\<rparr>]\<rparr>,
        14 := example_class\<lparr>descriptor := ''LC;'', super_class := Some 13,
                direct_interfaces := [Some 11], sfields := Some []\<rparr>)"

definition method_f :: "addr \<Rightarrow> bool \<Rightarrow> ArtMethod" where
  "method_f klass dflt =
     \<lparr>method_name = ''f'', method_signature = ''()V'', declaring_class = klass, is_default = dflt\<rparr>"

definition interface_heap :: heap where
  "interface_heap =
     (\<lambda>_. example_class)
       (30 := example_class\<lparr>descriptor := ''LA;'', is_interface := True,
                declared_virtual_methods := [method_f 30 True]\<rparr>,
        31 := example_class\<lparr>descriptor := ''LB;'', is_interface := True, iftable := [30],
                declared_virtual_methods := [method_f 31 True]\<rparr>,
        32 := example_class\<lparr>descriptor := ''LC;'', is_interface := True, iftable := [30, 31]\<rparr>,
        33 := example_class\<lparr>descriptor := ''LD;'', is_interface := True, iftable := [30, 31],
                copied_methods := [method_f 33 False]\<rparr>,
        34 := example_class\<lparr>descriptor := ''LE;'', is_interface := True, iftable := [30],
                declared_virtual_methods := [method_f 34 False]\<rparr>,
        35 := example_class\<lparr>descriptor := ''LF;'', is_interface := True, iftable := [30, 34]\<rparr>,
        36 := example_class\<lparr>descriptor := ''LG;''\<rparr>)"

definition object_field_heap :: heap where
  "object_field_heap =
     (\<lambda>_. example_class)
       (10 := example_class\<lparr>descriptor := ''Ljava/lang/Object;'',
                sfields := Some [\<lparr>field_name = ''y'', field_type_descriptor = ''I'', dex_field_index = 0\<rparr>]\<rparr>,
        11 := example_class\<lparr>descriptor := ''LI;'', is_interface := True, super_class := Some 10,
                sfields := Some []\<rparr>,
        13 := example_class\<lparr>descriptor := ''LB;'', super_class := Some 10,
                sfields := Some [\<lparr>field_name = ''y'', field_type_descriptor = ''I'', dex_field_index = 1\<rparr>]\<rparr>,
        14 := example_class\<lparr>descriptor := ''LC;'', super_class := Some 13,
                direct_interfaces := [Some 11], sfields := Some []\<rparr>)"

definition marked_class :: Class where
  "marked_class =
     example_class\<lparr>ext_data := Some (example_ext\<lparr>verify_error := Some (Exception 7)\<rparr>), status := - 1\<rparr>"

section \<open>Basic facts\<close>

lemma bind_err_simps [simp]:
  "bind_err (Inl e) f = Inl e" "bind_err (Inr x) f = f x"
  by (simp_all add: bind_err_def)

lemma bind_err_Inr_iff:
  "bind_err m f = Inr y \<longleftrightarrow> (\<exists>x. m = Inr x \<and> f x = Inr y)"
  by (cases m) auto

lemma CHECK_Inr [simp]: "CHECK b = Inr u \<longleftrightarrow> b"
  by (simp add: CHECK_def)

lemma CHECK_Inl [simp]: "CHECK b = Inl e \<longleftrightarrow> \<not> b"
  by (cases e) (simp add: CHECK_def)

section \<open>The class size\<close>

text \<open>
  C10, as the code has it. In a debug build a call of \<^verbatim>\<open>SetClassSize\<close> with a size below
  the stored one is fatal, so every call that returns leaves a size that is not smaller:
  there the stored class size never decreases. In a release build the check is compiled
  out and the new size is stored whatever it is.
\<close>

theorem SetClassSize_debug_monotone:
  "(kIsDebugBuild d \<and> new_class_size < class_size c \<longrightarrow>
      SetClassSize d c new_class_size = Inl Fatal) \<and>
   (kIsDebugBuild d \<and> SetClassSize d c new_class_size = Inr c' \<longrightarrow>
      class_size c' = new_class_size \<and> class_size c \<le> class_size c') \<and>
   (\<not> kIsDebugBuild d \<longrightarrow>
      SetClassSize d c new_class_size = Inr (c\<lparr>class_size := new_class_size\<rparr>))"
  by (auto simp: SetClassSize_def split: if_splits)

theorem SetClassSize_debug_monotone_witness:
  "SetClassSize example_decls (example_class\<lparr>class_size := 8\<rparr>) 4 = Inl Fatal \<and>
   SetClassSize example_decls (example_class\<lparr>class_size := 8\<rparr>) 16
     = Inr (example_class\<lparr>class_size := 16\<rparr>) \<and>
   class_size (example_class\<lparr>class_size := 8\<rparr>) \<le> class_size (example_class\<lparr>class_size := 16\<rparr>)"
proof -
  have dbg: "kIsDebugBuild example_decls"
    by (simp add: example_decls_def)
  have lt: "(4::32 word) < class_size (example_class\<lparr>class_size := 8\<rparr>)"
    by simp
  have ok: "SetClassSize example_decls (example_class\<lparr>class_size := 8\<rparr>) 16
              = Inr (example_class\<lparr>class_size := 16\<rparr>)"
    by (simp add: SetClassSize_def example_decls_def)
  from SetClassSize_debug_monotone [of example_decls 4 "example_class\<lparr>class_size := 8\<rparr>"] dbg lt
  have a: "SetClassSize example_decls (example_class\<lparr>class_size := 8\<rparr>) 4 = Inl Fatal"
    by blast
  from SetClassSize_debug_monotone [of example_decls 16 "example_class\<lparr>class_size := 8\<rparr>"
      "example_class\<lparr>class_size := 16\<rparr>"] dbg ok
  have b: "class_size (example_class\<lparr>class_size := 8\<rparr>) \<le> class_size (example_class\<lparr>class_size := 16\<rparr>)"
    by blast
  from a b ok show ?thesis by blast
qed

text \<open>
  C10 as stated fails in a release build: a class of size 8 is given the size 4, the call
  returns, and the stored size has decreased.
\<close>

theorem SetClassSize_release_counterexample:
  "SetClassSize (example_decls\<lparr>kIsDebugBuild := False\<rparr>) (example_class\<lparr>class_size := 8\<rparr>) 4
     = Inr (example_class\<lparr>class_size := 4\<rparr>) \<and>
   class_size (example_class\<lparr>class_size := 4\<rparr>) < class_size (example_class\<lparr>class_size := 8\<rparr>)"
  by (simp add: SetClassSize_def example_decls_def)

section \<open>Extension data is installed once\<close>

lemma thread_restore:
  "exception self = Some t \<Longrightarrow> self\<lparr>exception := Some t\<rparr> = self"
  "exception self = None \<Longrightarrow> self\<lparr>exception := None\<rparr> = self"
  by simp_all

lemma EnsureExtDataPresent_eq:
  "EnsureExtDataPresent d alloc racer this self =
     Inr (case ext_data this of
            Some e \<Rightarrow> (Some e, this, self)
          | None \<Rightarrow>
              (case alloc of
                 None \<Rightarrow> (None, interfere racer this, self\<lparr>exception := Some OutOfMemoryError\<rparr>)
               | Some fresh \<Rightarrow>
                   (case racer of
                      None \<Rightarrow> (Some fresh, this\<lparr>ext_data := Some fresh\<rparr>, self)
                    | Some w \<Rightarrow> (Some w, this\<lparr>ext_data := Some w\<rparr>, self))))"
  by (auto simp: EnsureExtDataPresent_def ClassExt_Alloc_def interfere_def CasExtData_def
      AssertPendingOOMException_def DCHECK_def CHECK_def Let_def thread_restore split: option.splits)

text \<open>
  C7. \<^verbatim>\<open>EnsureExtDataPresent\<close> always returns, also when a failure is pending on the
  calling thread, on which the allocation itself would fail: the pending failure is saved
  and cleared before the allocation, which therefore runs. A record that is already
  installed is returned and nothing changes. Otherwise, when the allocation fails the
  answer is none, with an out-of-memory condition pending; when no other installer came
  first, the compare-and-swap installs the fresh record and it is returned; when another
  installer came first, the fresh record is dropped and the winner's record is returned
  and stays in the slot. On every return with a record the calling thread has its pending
  failure back, and the record returned is the one in the slot. A record in the slot is
  never replaced, so at most one record is ever installed.
\<close>

theorem EnsureExtDataPresent_installs_once:
  "\<exists>ret c' self'.
     EnsureExtDataPresent d alloc racer this self = Inr (ret, c', self') \<and>
     (\<forall>e. ext_data this = Some e \<longrightarrow> ret = Some e \<and> c' = this \<and> self' = self) \<and>
     (ext_data this = None \<longrightarrow> alloc = None \<longrightarrow>
        ret = None \<and> exception self' = Some OutOfMemoryError) \<and>
     (\<forall>fresh. ext_data this = None \<longrightarrow> alloc = Some fresh \<longrightarrow> racer = None \<longrightarrow>
        ret = Some fresh \<and> ext_data c' = Some fresh) \<and>
     (\<forall>fresh w. ext_data this = None \<longrightarrow> alloc = Some fresh \<longrightarrow> racer = Some w \<longrightarrow>
        ret = Some w \<and> ext_data c' = Some w) \<and>
     (ret \<noteq> None \<longrightarrow> ext_data c' = ret \<and> self' = self) \<and>
     (\<forall>w. ext_data (interfere racer this) = Some w \<longrightarrow> ext_data c' = Some w) \<and>
     (exception self \<noteq> None \<longrightarrow> ClassExt_Alloc alloc self = Inl Fatal) \<and>
     (ext_data this = None \<longrightarrow>
        (\<exists>r. ClassExt_Alloc alloc (self\<lparr>exception := None\<rparr>) = Inr r))"
  by (cases "ext_data this"; cases alloc; cases racer)
     (simp_all add: EnsureExtDataPresent_eq interfere_def CasExtData_def ClassExt_Alloc_def)

theorem EnsureExtDataPresent_installs_once_witness:
  "ext_data example_class = None \<and> exception example_thread \<noteq> None \<and>
   ClassExt_Alloc (Some example_ext) example_thread = Inl Fatal \<and>
   (\<exists>c'. EnsureExtDataPresent example_decls (Some example_ext) None example_class example_thread
           = Inr (Some example_ext, c', example_thread) \<and>
         ext_data c' = Some example_ext) \<and>
   (\<exists>c'. EnsureExtDataPresent example_decls (Some example_ext) (Some (example_ext\<lparr>ext_addr := 200\<rparr>))
           example_class example_thread
           = Inr (Some (example_ext\<lparr>ext_addr := 200\<rparr>), c', example_thread) \<and>
         ext_data c' = Some (example_ext\<lparr>ext_addr := 200\<rparr>)) \<and>
   (\<exists>c' self'. EnsureExtDataPresent example_decls None None example_class example_thread
           = Inr (None, c', self') \<and> exception self' = Some OutOfMemoryError)"
proof -
  have empty: "ext_data example_class = None"
    by (simp add: example_class_def)
  have pending: "exception example_thread \<noteq> None"
    by (simp add: example_thread_def)
  from EnsureExtDataPresent_installs_once [of example_decls "Some example_ext" None
      example_class example_thread]
  obtain ret0 c0 self0 where
    r0: "EnsureExtDataPresent example_decls (Some example_ext) None example_class example_thread
          = Inr (ret0, c0, self0)" and
    winner: "\<forall>fresh. ext_data example_class = None \<longrightarrow> Some example_ext = Some fresh \<longrightarrow>
          (None :: ClassExt option) = None \<longrightarrow> ret0 = Some fresh \<and> ext_data c0 = Some fresh" and
    restored0: "ret0 \<noteq> None \<longrightarrow> ext_data c0 = ret0 \<and> self0 = example_thread" and
    fatal: "exception example_thread \<noteq> None \<longrightarrow>
          ClassExt_Alloc (Some example_ext) example_thread = Inl Fatal"
    by (elim exE conjE) (rule that)
  from winner empty have "ret0 = Some example_ext" and "ext_data c0 = Some example_ext"
    by blast+
  with r0 restored0 have w: "\<exists>c'. EnsureExtDataPresent example_decls (Some example_ext) None
        example_class example_thread = Inr (Some example_ext, c', example_thread) \<and>
         ext_data c' = Some example_ext"
    by auto
  from fatal pending have f: "ClassExt_Alloc (Some example_ext) example_thread = Inl Fatal"
    by blast
  from EnsureExtDataPresent_installs_once [of example_decls "Some example_ext"
      "Some (example_ext\<lparr>ext_addr := 200\<rparr>)" example_class example_thread]
  obtain ret c' self' where
    r: "EnsureExtDataPresent example_decls (Some example_ext) (Some (example_ext\<lparr>ext_addr := 200\<rparr>))
          example_class example_thread = Inr (ret, c', self')" and
    loser: "\<forall>fresh w. ext_data example_class = None \<longrightarrow> Some example_ext = Some fresh \<longrightarrow>
          Some (example_ext\<lparr>ext_addr := 200\<rparr>) = Some w \<longrightarrow> ret = Some w \<and> ext_data c' = Some w" and
    restored: "ret \<noteq> None \<longrightarrow> ext_data c' = ret \<and> self' = example_thread"
    by (elim exE conjE) (rule that)
  from loser empty have "ret = Some (example_ext\<lparr>ext_addr := 200\<rparr>)"
    and "ext_data c' = Some (example_ext\<lparr>ext_addr := 200\<rparr>)"
    by blast+
  with r restored have a: "\<exists>c'. EnsureExtDataPresent example_decls (Some example_ext)
        (Some (example_ext\<lparr>ext_addr := 200\<rparr>)) example_class example_thread
           = Inr (Some (example_ext\<lparr>ext_addr := 200\<rparr>), c', example_thread) \<and>
         ext_data c' = Some (example_ext\<lparr>ext_addr := 200\<rparr>)"
    by auto
  from EnsureExtDataPresent_installs_once [of example_decls None None example_class example_thread]
  obtain ret2 c2 self2 where
    r2: "EnsureExtDataPresent example_decls None None example_class example_thread = Inr (ret2, c2, self2)" and
    oom: "ext_data example_class = None \<longrightarrow> None = (None :: ClassExt option) \<longrightarrow>
            ret2 = None \<and> exception self2 = Some OutOfMemoryError"
    by (elim exE conjE) (rule that)
  from oom empty r2 have b: "\<exists>c' self'. EnsureExtDataPresent example_decls None None example_class example_thread
           = Inr (None, c', self') \<and> exception self' = Some OutOfMemoryError"
    by auto
  from empty pending f w a b show ?thesis by blast
qed

text \<open>
  The same on the interleaving of any number of installers: a record in the slot stays
  there, and all the installers that return a record return the one in the slot.
\<close>

lemma install_step_keeps_slot:
  "install_step c c' \<Longrightarrow> slot c = Some w \<Longrightarrow> slot c' = Some w"
  by (induction rule: install_step.induct) simp_all

lemma install_step_ok:
  "install_step c c' \<Longrightarrow> installers_ok c \<Longrightarrow> installers_ok c'"
  by (induction rule: install_step.induct) (auto simp: installers_ok_def)

lemma install_steps_ok:
  "install_step\<^sup>*\<^sup>* c c' \<Longrightarrow> installers_ok c \<Longrightarrow> installers_ok c'"
  by (induction rule: rtranclp_induct) (auto intro: install_step_ok)

lemma installers_agree:
  assumes "install_step\<^sup>*\<^sup>* \<lparr>slot = None, at = (\<lambda>t. Entered)\<rparr> c"
    and "at c t = Returned (Some r)" and "at c t' = Returned (Some r')"
  shows "r = r' \<and> slot c = Some r"
proof -
  have "installers_ok \<lparr>slot = None, at = (\<lambda>t. Entered)\<rparr>"
    by (simp add: installers_ok_def)
  with assms(1) have ok: "installers_ok c"
    by (rule install_steps_ok)
  from ok assms(2) have "slot c = Some r"
    by (simp add: installers_ok_def)
  moreover from ok assms(3) have "slot c = Some r'"
    by (simp add: installers_ok_def)
  ultimately show ?thesis by simp
qed

section \<open>Status transitions\<close>

lemma error_unique: "(e::error) = Fatal"
  by (cases e) simp

lemma SetStatus_checks_Inr:
  "SetStatus_checks d rt h_this new_status self = Inr u \<longleftrightarrow>
     (class_linker_initialized rt \<longrightarrow>
        (status h_this < new_status \<or> new_status = kStatusErrorUnresolved d \<or>
         new_status = kStatusErrorResolved d \<or> new_status = kStatusRetired d) \<and>
        (new_status \<ge> kStatusResolved d \<or> status h_this \<ge> kStatusResolved d \<longrightarrow>
           lock_owner_thread_id h_this = thread_id self))"
  by (auto simp: SetStatus_checks_def Let_def)

lemma SetStatus_fast_path_Inr:
  "SetStatus_fast_path d c new_status = Inr c' \<Longrightarrow>
     status c' = status c \<and> ext_data c' = ext_data c \<and>
     (\<exists>n. c' = c\<lparr>object_size_alloc_fast_path := n\<rparr>)"
  apply (auto simp: SetStatus_fast_path_def bind_err_Inr_iff split: if_splits)
  apply (rule exI [of _ "object_size_alloc_fast_path c"], simp)+
  done

lemma SetStatus_notify_regular:
  "SetStatus_notify d rt c old_status new_status = Inr notified \<Longrightarrow> \<not> IsTemp d c \<Longrightarrow>
     notified \<longleftrightarrow> class_linker_initialized rt \<and>
       (old_status \<ge> kStatusResolved d \<or> new_status \<ge> kStatusResolved d)"
  by (auto simp: SetStatus_notify_def bind_err_Inr_iff split: if_splits)

lemma SetStatus_erroneous_skip:
  "\<not> IsErroneous d new_status \<Longrightarrow>
     SetStatus_erroneous d alloc racer h_this new_status self = Inr (h_this, self)"
  by (simp add: SetStatus_erroneous_def)

lemma SetStatus_erroneous_Inr:
  "IsErroneous d new_status \<Longrightarrow>
   SetStatus_erroneous d alloc racer h_this new_status self = Inr (c, self') \<longleftrightarrow>
     \<not> IsErroneous d (status h_this) \<and>
     ((new_status = kStatusErrorResolved d) = (status h_this \<ge> kStatusResolved d)) \<and>
     (case ext_data h_this of
        Some e \<Rightarrow> exception self \<noteq> None \<and> self' = self \<and>
                  c = h_this\<lparr>ext_data := Some (e\<lparr>verify_error := exception self\<rparr>)\<rparr>
      | None \<Rightarrow>
          (case alloc of
             None \<Rightarrow> c = interfere racer h_this \<and> self' = self\<lparr>exception := Some OutOfMemoryError\<rparr>
           | Some fresh \<Rightarrow>
               exception self \<noteq> None \<and> self' = self \<and>
               c = h_this\<lparr>ext_data :=
                     Some ((case racer of None \<Rightarrow> fresh | Some w \<Rightarrow> w)\<lparr>verify_error := exception self\<rparr>)\<rparr>))"
  by (cases "ext_data h_this"; cases alloc; cases racer)
     (auto simp: SetStatus_erroneous_def EnsureExtDataPresent_eq Let_def bind_err_Inr_iff
       AssertPendingException_def AssertPendingOOMException_def)

lemma SetStatus_Inr:
  "SetStatus d rt alloc racer h_this new_status self = Inr (c', self', notified) \<longleftrightarrow>
     (\<exists>c1.
        SetStatus_checks d rt h_this new_status self = Inr () \<and>
        SetStatus_erroneous d alloc racer h_this new_status self = Inr (c1, self') \<and>
        SetStatus_fast_path d (c1\<lparr>status := new_status\<rparr>) new_status = Inr c' \<and>
        SetStatus_notify d rt c' (status h_this) new_status = Inr notified)"
  by (auto simp: SetStatus_def Let_def bind_err_Inr_iff)

lemmas SetStatus_defs =
  SetStatus_def SetStatus_checks_def SetStatus_erroneous_def SetStatus_fast_path_def
  SetStatus_notify_def IsErroneous_def EnsureExtDataPresent_eq interfere_def CasExtData_def
  AssertPendingException_def AssertPendingOOMException_def DCHECK_def CHECK_def
  example_decls_def example_runtime_def example_thread_def example_ext_def

text \<open>
  C2, as the code has it. While the class linker is initialized, a transition that
  \<^verbatim>\<open>SetStatus\<close> performs stores the new status, and the new status is strictly above the
  old one or is one of \<open>Retired\<close>, \<open>ErrorUnresolved\<close>, \<open>ErrorResolved\<close>; a transition that
  is not strictly forward and not into one of these three is fatal.
\<close>

theorem SetStatus_forward_or_sanctioned:
  "class_linker_initialized rt \<Longrightarrow>
   (SetStatus d rt alloc racer h_this new_status self = Inr (c', self', notified) \<longrightarrow>
      status c' = new_status \<and>
      (status h_this < new_status \<or> new_status = kStatusRetired d \<or>
       new_status = kStatusErrorUnresolved d \<or> new_status = kStatusErrorResolved d)) \<and>
   (new_status \<le> status h_this \<and> new_status \<noteq> kStatusRetired d \<and>
    new_status \<noteq> kStatusErrorUnresolved d \<and> new_status \<noteq> kStatusErrorResolved d \<longrightarrow>
      SetStatus d rt alloc racer h_this new_status self = Inl Fatal)"
proof (intro conjI impI)
  assume init: "class_linker_initialized rt"
  { assume r: "SetStatus d rt alloc racer h_this new_status self = Inr (c', self', notified)"
    then obtain c1 where
      chk: "SetStatus_checks d rt h_this new_status self = Inr ()" and
      fp: "SetStatus_fast_path d (c1\<lparr>status := new_status\<rparr>) new_status = Inr c'"
      by (auto simp: SetStatus_Inr)
    from SetStatus_fast_path_Inr [OF fp] show "status c' = new_status" by simp
    from chk init show "status h_this < new_status \<or> new_status = kStatusRetired d \<or>
       new_status = kStatusErrorUnresolved d \<or> new_status = kStatusErrorResolved d"
      by (auto simp: SetStatus_checks_Inr) }
  { assume "new_status \<le> status h_this \<and> new_status \<noteq> kStatusRetired d \<and>
      new_status \<noteq> kStatusErrorUnresolved d \<and> new_status \<noteq> kStatusErrorResolved d"
    with init have "SetStatus_checks d rt h_this new_status self = Inl Fatal"
      by (simp add: SetStatus_checks_def)
    then show "SetStatus d rt alloc racer h_this new_status self = Inl Fatal"
      by (simp add: SetStatus_def) }
qed

theorem SetStatus_forward_or_sanctioned_witness:
  "class_linker_initialized example_runtime \<and>
   SetStatus example_decls example_runtime None None (example_class\<lparr>status := 2\<rparr>) 3 example_thread
     = Inr (example_class\<lparr>status := 3\<rparr>, example_thread, False) \<and>
   status (example_class\<lparr>status := 2\<rparr>) < 3 \<and>
   SetStatus example_decls example_runtime None None (example_class\<lparr>status := 3\<rparr>) 2 example_thread
     = Inl Fatal"
proof -
  have i: "class_linker_initialized example_runtime"
    by (simp add: example_runtime_def)
  have r: "SetStatus example_decls example_runtime None None (example_class\<lparr>status := 2\<rparr>) 3 example_thread
     = Inr (example_class\<lparr>status := 3\<rparr>, example_thread, False)"
    by (simp add: SetStatus_defs)
  have b: "(2::int) \<le> status (example_class\<lparr>status := 3\<rparr>) \<and> 2 \<noteq> kStatusRetired example_decls \<and>
    2 \<noteq> kStatusErrorUnresolved example_decls \<and> 2 \<noteq> kStatusErrorResolved example_decls"
    by (simp add: example_decls_def)
  from SetStatus_forward_or_sanctioned [OF i, of example_decls None None "example_class\<lparr>status := 2\<rparr>" 3
      example_thread "example_class\<lparr>status := 3\<rparr>" example_thread False] r
  have f: "status (example_class\<lparr>status := 2\<rparr>) < 3"
    by (simp add: example_decls_def)
  from SetStatus_forward_or_sanctioned [OF i, of example_decls None None "example_class\<lparr>status := 3\<rparr>" 2
      example_thread] b
  have "SetStatus example_decls example_runtime None None (example_class\<lparr>status := 3\<rparr>) 2 example_thread
     = Inl Fatal"
    by blast
  with i r f show ?thesis by blast
qed

text \<open>
  C2 as stated fails while the class linker is being initialized, where the check is
  skipped: the transition from status 4 back to status 2, which is none of the three
  sanctioned targets, is performed.
\<close>

theorem SetStatus_bootstrap_counterexample:
  "SetStatus example_decls (example_runtime\<lparr>class_linker_initialized := False\<rparr>) None None
     (example_class\<lparr>status := 4\<rparr>) 2 example_thread
     = Inr (example_class\<lparr>status := 2\<rparr>, example_thread, False) \<and>
   status (example_class\<lparr>status := 2\<rparr>) < status (example_class\<lparr>status := 4\<rparr>) \<and>
   2 \<noteq> kStatusRetired example_decls \<and> 2 \<noteq> kStatusErrorUnresolved example_decls \<and>
   2 \<noteq> kStatusErrorResolved example_decls"
  by (simp add: SetStatus_defs)

text \<open>
  C3, as the code has it. A transition that \<^verbatim>\<open>SetStatus\<close> performs on a regular
  (non-temporary) instance notifies all waiters exactly when the class linker is
  initialized and the old or the new status is at or above \<open>Resolved\<close>: so it notifies
  when the transition crosses the boundary and also when it stays at or above it, and
  does not notify when both statuses are below it.
\<close>

theorem SetStatus_notifies_regular:
  "SetStatus d rt alloc racer h_this new_status self = Inr (c', self', notified) \<Longrightarrow>
   \<not> IsTemp d c' \<Longrightarrow>
   notified \<longleftrightarrow> class_linker_initialized rt \<and>
     (status h_this \<ge> kStatusResolved d \<or> new_status \<ge> kStatusResolved d)"
  by (auto simp: SetStatus_Inr dest: SetStatus_notify_regular)

theorem SetStatus_notifies_regular_witness:
  "SetStatus example_decls example_runtime None None (example_class\<lparr>status := 3\<rparr>) 4 example_thread
     = Inr (example_class\<lparr>status := 4\<rparr>, example_thread, True) \<and>
   \<not> IsTemp example_decls (example_class\<lparr>status := 4\<rparr>) \<and>
   (True \<longleftrightarrow> class_linker_initialized example_runtime \<and>
     (status (example_class\<lparr>status := 3\<rparr>) \<ge> kStatusResolved example_decls \<or>
      4 \<ge> kStatusResolved example_decls))"
proof -
  have r: "SetStatus example_decls example_runtime None None (example_class\<lparr>status := 3\<rparr>) 4 example_thread
     = Inr (example_class\<lparr>status := 4\<rparr>, example_thread, True)"
    by (simp add: SetStatus_defs example_class_def)
  have t: "\<not> IsTemp example_decls (example_class\<lparr>status := 4\<rparr>)"
    by (simp add: example_decls_def)
  from SetStatus_notifies_regular [OF r t] r t show ?thesis by blast
qed

text \<open>
  C3 as stated fails for a transition that stays above the boundary: from \<open>Resolved\<close>
  (4) to \<open>Verifying\<close> (5) on a regular instance the waiters are notified, although both
  statuses are at or above \<open>Resolved\<close>.
\<close>

theorem SetStatus_notifies_above_counterexample:
  "SetStatus example_decls example_runtime None None (example_class\<lparr>status := 4\<rparr>) 5 example_thread
     = Inr (example_class\<lparr>status := 5\<rparr>, example_thread, True) \<and>
   \<not> IsTemp example_decls (example_class\<lparr>status := 5\<rparr>) \<and>
   status (example_class\<lparr>status := 4\<rparr>) \<ge> kStatusResolved example_decls \<and>
   5 \<ge> kStatusResolved example_decls"
  by (simp add: SetStatus_defs example_class_def)

text \<open>
  C6, as the code has it. A transition into \<open>ErrorUnresolved\<close> or \<open>ErrorResolved\<close> made
  while the status of the type is one of these two is fatal. When a transition into one
  of them is performed, the new status is \<open>ErrorResolved\<close> exactly when the old status
  was at or above \<open>Resolved\<close>. When the extension data is present or can be allocated, a
  failure was pending on the calling thread, it is still pending afterwards, and it is the
  failure recorded in the extension data of the type. When the extension data is absent
  and its allocation fails, the transition is performed all the same, with an
  out-of-memory condition pending and no failure recorded.
\<close>

theorem SetStatus_erroneous_once:
  "IsErroneous d new_status \<Longrightarrow>
   (IsErroneous d (status h_this) \<longrightarrow>
      SetStatus d rt alloc racer h_this new_status self = Inl Fatal) \<and>
   (SetStatus d rt alloc racer h_this new_status self = Inr (c', self', notified) \<longrightarrow>
      ((new_status = kStatusErrorResolved d) = (status h_this \<ge> kStatusResolved d)) \<and>
      (ext_data h_this \<noteq> None \<or> alloc \<noteq> None \<longrightarrow>
         exception self \<noteq> None \<and> exception self' = exception self \<and>
         (\<exists>e. ext_data c' = Some e \<and> verify_error e = exception self)) \<and>
      (ext_data h_this = None \<and> alloc = None \<longrightarrow>
         exception self' = Some OutOfMemoryError \<and>
         ext_data c' = ext_data (interfere racer h_this)))"
proof (intro conjI impI)
  assume err: "IsErroneous d new_status"
  { assume "IsErroneous d (status h_this)"
    with err have "SetStatus_erroneous d alloc racer h_this new_status self = Inl Fatal"
      by (simp add: SetStatus_erroneous_def CHECK_def)
    then show "SetStatus d rt alloc racer h_this new_status self = Inl Fatal"
      by (cases "SetStatus_checks d rt h_this new_status self") (simp_all add: SetStatus_def error_unique) }
  assume r: "SetStatus d rt alloc racer h_this new_status self = Inr (c', self', notified)"
  then obtain c1 where
    e: "SetStatus_erroneous d alloc racer h_this new_status self = Inr (c1, self')" and
    fp: "SetStatus_fast_path d (c1\<lparr>status := new_status\<rparr>) new_status = Inr c'"
    by (auto simp: SetStatus_Inr)
  from SetStatus_fast_path_Inr [OF fp] have ext: "ext_data c' = ext_data c1"
    by simp
  note E = e [unfolded SetStatus_erroneous_Inr [OF err]]
  from E show "(new_status = kStatusErrorResolved d) = (status h_this \<ge> kStatusResolved d)"
    by simp
  { assume "ext_data h_this \<noteq> None \<or> alloc \<noteq> None"
    with E ext show "exception self \<noteq> None"
      and "exception self' = exception self"
      and "\<exists>e. ext_data c' = Some e \<and> verify_error e = exception self"
      by (auto split: option.splits) }
  { assume "ext_data h_this = None \<and> alloc = None"
    with E ext show "exception self' = Some OutOfMemoryError"
      and "ext_data c' = ext_data (interfere racer h_this)"
      by (auto split: option.splits) }
qed

theorem SetStatus_erroneous_once_witness:
  "IsErroneous example_decls (- 1) \<and>
   SetStatus example_decls example_runtime (Some example_ext) None example_class (- 1) example_thread
     = Inr (example_class\<lparr>ext_data := Some (example_ext\<lparr>verify_error := Some (Exception 7)\<rparr>),
                          status := - 1\<rparr>, example_thread, False) \<and>
   (\<exists>e. ext_data (example_class\<lparr>ext_data := Some (example_ext\<lparr>verify_error := Some (Exception 7)\<rparr>),
                                 status := - 1\<rparr>) = Some e \<and>
        verify_error e = exception example_thread) \<and>
   exception example_thread \<noteq> None \<and>
   SetStatus example_decls example_runtime (Some example_ext) None (example_class\<lparr>status := - 2\<rparr>) (- 1)
     example_thread = Inl Fatal \<and>
   SetStatus example_decls example_runtime None None example_class (- 1) example_thread
     = Inr (example_class\<lparr>status := - 1\<rparr>, example_thread\<lparr>exception := Some OutOfMemoryError\<rparr>, False) \<and>
   exception (example_thread\<lparr>exception := Some OutOfMemoryError\<rparr>) = Some OutOfMemoryError"
proof -
  have e: "IsErroneous example_decls (- 1)"
    by (simp add: IsErroneous_def example_decls_def)
  have r: "SetStatus example_decls example_runtime (Some example_ext) None example_class (- 1) example_thread
     = Inr (example_class\<lparr>ext_data := Some (example_ext\<lparr>verify_error := Some (Exception 7)\<rparr>),
                          status := - 1\<rparr>, example_thread, False)"
    by (simp add: SetStatus_defs example_class_def)
  have r2: "SetStatus example_decls example_runtime None None example_class (- 1) example_thread
     = Inr (example_class\<lparr>status := - 1\<rparr>, example_thread\<lparr>exception := Some OutOfMemoryError\<rparr>, False)"
    by (simp add: SetStatus_defs example_class_def)
  have o: "IsErroneous example_decls (status (example_class\<lparr>status := - 2\<rparr>))"
    by (simp add: IsErroneous_def example_decls_def)
  have a: "Some example_ext \<noteq> None" and n: "ext_data example_class = None \<and> (None :: ClassExt option) = None"
    by (simp_all add: example_class_def)
  from SetStatus_erroneous_once [OF e, of "example_class\<lparr>status := - 2\<rparr>" example_runtime
      "Some example_ext" None example_thread] o
  have f: "SetStatus example_decls example_runtime (Some example_ext) None (example_class\<lparr>status := - 2\<rparr>) (- 1)
     example_thread = Inl Fatal"
    by blast
  from SetStatus_erroneous_once [OF e, of example_class example_runtime "Some example_ext" None
      example_thread _ example_thread False] r a
  have c: "exception example_thread \<noteq> None"
    "\<exists>e. ext_data (example_class\<lparr>ext_data := Some (example_ext\<lparr>verify_error := Some (Exception 7)\<rparr>),
                                 status := - 1\<rparr>) = Some e \<and>
        verify_error e = exception example_thread"
    by blast+
  from SetStatus_erroneous_once [OF e, of example_class example_runtime None None
      example_thread _ "example_thread\<lparr>exception := Some OutOfMemoryError\<rparr>" False] r2 n
  have m: "exception (example_thread\<lparr>exception := Some OutOfMemoryError\<rparr>) = Some OutOfMemoryError"
    by blast
  from e r c f r2 m show ?thesis by blast
qed

text \<open>
  C6 as stated fails in two ways. When the allocation of the extension data fails, the
  type is marked \<open>ErrorUnresolved\<close>, the failure that was pending is recorded nowhere, and
  the type has no extension data afterwards. And the check of line 133 reads the current
  status only: a type marked \<open>ErrorUnresolved\<close> (-1) with the failure 7 recorded moves
  forward to status 2, is marked \<open>ErrorUnresolved\<close> a second time, and the failure 8 takes
  the place of the one recorded first.
\<close>

theorem SetStatus_erroneous_counterexample:
  "IsErroneous example_decls (- 1) \<and>
   exception example_thread = Some (Exception 7) \<and>
   SetStatus example_decls example_runtime None None example_class (- 1) example_thread
     = Inr (example_class\<lparr>status := - 1\<rparr>,
            example_thread\<lparr>exception := Some OutOfMemoryError\<rparr>, False) \<and>
   ext_data (example_class\<lparr>status := - 1\<rparr>) = None \<and>
   SetStatus example_decls example_runtime (Some example_ext) None example_class (- 1) example_thread
     = Inr (marked_class, example_thread, False) \<and>
   SetStatus example_decls example_runtime None None marked_class 2 example_thread
     = Inr (marked_class\<lparr>status := 2\<rparr>, example_thread, False) \<and>
   SetStatus example_decls example_runtime None None (marked_class\<lparr>status := 2\<rparr>) (- 1)
       (example_thread\<lparr>exception := Some (Exception 8)\<rparr>)
     = Inr (marked_class\<lparr>ext_data := Some (example_ext\<lparr>verify_error := Some (Exception 8)\<rparr>)\<rparr>,
            example_thread\<lparr>exception := Some (Exception 8)\<rparr>, False)"
  by (simp add: SetStatus_defs example_class_def marked_class_def)

section \<open>Binary search against linear scan\<close>

lemma Compare_sign:
  "Compare a b < 0 \<longleftrightarrow> a < b" "Compare a b = 0 \<longleftrightarrow> a = b" "Compare a b > 0 \<longleftrightarrow> b < a"
  by (auto simp: Compare_def)

lemma key_compare_sign:
  "key_compare f name type < 0 \<longleftrightarrow> key_below f name type"
  "key_compare f name type > 0 \<longleftrightarrow> key_above f name type"
proof -
  show "key_compare f name type < 0 \<longleftrightarrow> key_below f name type"
  proof (cases "field_name f = name")
    case True
    then have "key_compare f name type = Compare (field_type_descriptor f) type"
      by (simp add: key_compare_def Compare_sign(2))
    with True show ?thesis
      by (simp add: key_below_def Compare_sign(1))
  next
    case False
    then have "key_compare f name type = Compare (field_name f) name"
      by (simp add: key_compare_def Compare_sign(2))
    with False show ?thesis
      by (simp add: key_below_def Compare_sign(1))
  qed
  show "key_compare f name type > 0 \<longleftrightarrow> key_above f name type"
  proof (cases "field_name f = name")
    case True
    then have "key_compare f name type = Compare (field_type_descriptor f) type"
      by (simp add: key_compare_def Compare_sign(2))
    with True show ?thesis
      by (simp add: key_above_def Compare_sign(3))
  next
    case False
    then have "key_compare f name type = Compare (field_name f) name"
      by (simp add: key_compare_def Compare_sign(2))
    with False show ?thesis
      by (simp add: key_above_def Compare_sign(3))
  qed
qed

lemma search_unfold:
  "FindFieldByNameAndType_search fs name type low high =
     (if low < high then
        (if key_compare (fs ! ((low + high) div 2)) name type < 0
         then FindFieldByNameAndType_search fs name type ((low + high) div 2 + 1) high
         else if key_compare (fs ! ((low + high) div 2)) name type > 0
         then FindFieldByNameAndType_search fs name type low ((low + high) div 2)
         else Some ((low + high) div 2))
      else None)"
  by (subst FindFieldByNameAndType_search.simps) (simp only: Let_def key_compare_def)

lemma search_step:
  "FindFieldByNameAndType_search fs name type low high =
     (if low < high then
        (if key_below (fs ! ((low + high) div 2)) name type
         then FindFieldByNameAndType_search fs name type ((low + high) div 2 + 1) high
         else if key_above (fs ! ((low + high) div 2)) name type
         then FindFieldByNameAndType_search fs name type low ((low + high) div 2)
         else Some ((low + high) div 2))
      else None)"
  by (subst search_unfold) (simp only: key_compare_sign)

lemma key_trichotomy:
  "\<not> key_below f name type \<Longrightarrow> \<not> key_above f name type \<Longrightarrow> key_match f name type"
  by (auto simp: key_below_def key_above_def key_match_def)

lemma key_match_not_below: "key_match f name type \<Longrightarrow> \<not> key_below f name type \<and> \<not> key_above f name type"
  by (auto simp: key_below_def key_above_def key_match_def)

lemma search_induct [case_names step]:
  fixes P :: "nat \<Rightarrow> nat \<Rightarrow> bool"
  assumes "\<And>low high.
     (low < high \<Longrightarrow> P ((low + high) div 2 + 1) high) \<Longrightarrow>
     (low < high \<Longrightarrow> P low ((low + high) div 2)) \<Longrightarrow> P low high"
  shows "P low high"
proof (induction "high - low" arbitrary: low high rule: less_induct)
  case less
  show ?case
  proof (rule assms)
    assume "low < high"
    then show "P ((low + high) div 2 + 1) high"
      by (intro less) linarith
  next
    assume "low < high"
    then show "P low ((low + high) div 2)"
      by (intro less) linarith
  qed
qed

lemma search_sound:
  "FindFieldByNameAndType_search fs name type low high = Some i \<Longrightarrow>
     low \<le> i \<and> i < high \<and> key_match (fs ! i) name type"
proof (induction low high rule: search_induct)
  case (step low high)
  show ?case
  proof (cases "low < high")
    case False
    with step.prems show ?thesis by (subst (asm) search_step) simp
  next
    case True
    let ?mid = "(low + high) div 2"
    from True have m: "low \<le> ?mid" "?mid < high" by linarith+
    consider (b) "key_below (fs ! ?mid) name type"
      | (a) "\<not> key_below (fs ! ?mid) name type" "key_above (fs ! ?mid) name type"
      | (m) "\<not> key_below (fs ! ?mid) name type" "\<not> key_above (fs ! ?mid) name type"
      by blast
    then show ?thesis
    proof cases
      case b
      with step.prems True
      have "FindFieldByNameAndType_search fs name type (?mid + 1) high = Some i"
        by (subst (asm) search_step) simp
      from step.IH(1) [OF True this] m show ?thesis by simp
    next
      case a
      with step.prems True
      have "FindFieldByNameAndType_search fs name type low ?mid = Some i"
        by (subst (asm) search_step) simp
      from step.IH(2) [OF True this] m show ?thesis by simp
    next
      case m
      with step.prems True have "i = ?mid"
        by (subst (asm) search_step) simp
      with m key_trichotomy show ?thesis
        using \<open>low \<le> ?mid\<close> \<open>?mid < high\<close> by blast
    qed
  qed
qed

lemma field_key_less_alt:
  "field_key_less f g \<longleftrightarrow> key_below f (field_name g) (field_type_descriptor g)"
  by (auto simp: field_key_less_def key_below_def)

lemma strictly_sorted_nth:
  "fields_strictly_sorted fs \<Longrightarrow> i < j \<Longrightarrow> j < length fs \<Longrightarrow> field_key_less (fs ! i) (fs ! j)"
  by (simp add: fields_strictly_sorted_def sorted_wrt_nth_less)

lemma less_match_below:
  "field_key_less f g \<Longrightarrow> key_match g name type \<Longrightarrow> key_below f name type"
  by (auto simp: field_key_less_def key_match_def key_below_def)

lemma greater_match_above:
  "field_key_less g f \<Longrightarrow> key_match g name type \<Longrightarrow> key_above f name type"
  by (auto simp: field_key_less_def key_match_def key_above_def)

lemma key_below_not_above: "key_below f name type \<Longrightarrow> \<not> key_above f name type"
  by (auto simp: key_below_def key_above_def)

lemma below_match_order:
  assumes "fields_strictly_sorted fs" "j < length fs" "m < length fs"
    "key_match (fs ! j) name type"
  shows "key_below (fs ! m) name type \<longleftrightarrow> m < j"
    and "key_above (fs ! m) name type \<longleftrightarrow> j < m"
proof -
  have lt: "\<And>a b. a < b \<Longrightarrow> b < length fs \<Longrightarrow> field_key_less (fs ! a) (fs ! b)"
    using assms(1) by (rule strictly_sorted_nth)
  consider (less) "m < j" | (eq) "m = j" | (greater) "j < m" by linarith
  then have "(key_below (fs ! m) name type \<longleftrightarrow> m < j) \<and> (key_above (fs ! m) name type \<longleftrightarrow> j < m)"
  proof cases
    case less
    from less_match_below [OF lt [OF less assms(2)] assms(4)]
    have "key_below (fs ! m) name type" .
    with key_below_not_above [OF this] less show ?thesis by simp
  next
    case eq
    with key_match_not_below [OF assms(4)] show ?thesis by simp
  next
    case greater
    from greater_match_above [OF lt [OF greater assms(3)] assms(4)]
    have "key_above (fs ! m) name type" .
    with key_below_not_above [of "fs ! m" name type] greater show ?thesis by auto
  qed
  then show "key_below (fs ! m) name type \<longleftrightarrow> m < j"
    and "key_above (fs ! m) name type \<longleftrightarrow> j < m"
    by simp_all
qed

lemma search_complete:
  assumes "fields_strictly_sorted fs" "j < length fs" "key_match (fs ! j) name type"
  shows "high \<le> length fs \<Longrightarrow> low \<le> j \<Longrightarrow> j < high \<Longrightarrow>
     FindFieldByNameAndType_search fs name type low high = Some j"
proof (induction low high rule: search_induct)
  case (step low high)
  let ?mid = "(low + high) div 2"
  from step.prems have lh: "low < high" by simp
  then have m: "low \<le> ?mid" "?mid < high" by linarith+
  with step.prems have ml: "?mid < length fs" by simp
  note ord = below_match_order [OF assms(1,2) ml assms(3)]
  consider "?mid < j" | "?mid = j" | "j < ?mid" by linarith
  then show ?case
  proof cases
    case 1
    with step.IH(1) [OF lh step.prems(1)] step.prems
    have "FindFieldByNameAndType_search fs name type (?mid + 1) high = Some j" by simp
    with 1 lh ord show ?thesis by (subst search_step) simp
  next
    case 2
    with lh ord show ?thesis by (subst search_step) simp
  next
    case 3
    with step.IH(2) [OF lh] step.prems m
    have "FindFieldByNameAndType_search fs name type low ?mid = Some j" by simp
    with 3 lh ord show ?thesis by (subst search_step) simp
  qed
qed

lemma scan_Some:
  "FindFieldByNameAndType_scan fs name type = Some i \<Longrightarrow>
     i < length fs \<and> key_match (fs ! i) name type"
  by (induction fs arbitrary: i) (auto simp: key_match_def split: if_splits)

lemma scan_None:
  "FindFieldByNameAndType_scan fs name type = None \<Longrightarrow> i < length fs \<Longrightarrow>
     \<not> key_match (fs ! i) name type"
  by (induction fs arbitrary: i) (auto simp: key_match_def nth_Cons split: if_splits nat.splits)

lemma search_eq_scan:
  assumes "fields_strictly_sorted fs"
  shows "FindFieldByNameAndType_search fs name type 0 (length fs) =
         FindFieldByNameAndType_scan fs name type"
proof (cases "FindFieldByNameAndType_scan fs name type")
  case None
  show ?thesis
  proof (cases "FindFieldByNameAndType_search fs name type 0 (length fs)")
    case (Some i)
    from search_sound [OF Some] scan_None [OF None] show ?thesis by blast
  qed (simp add: None)
next
  case (Some j)
  from scan_Some [OF Some] search_complete [OF assms, of j name type "length fs" 0] Some
  show ?thesis by simp
qed

text \<open>
  C4, as the code has it. For every field table that is strictly sorted by (name, then
  type descriptor), so that no two entries have the same name and type, and for every
  query, the binary search finds the entry that the exhaustive linear scan finds, or none
  when the scan finds none; the cross-check of the debug build passes.
\<close>

theorem FindFieldByNameAndType_is_linear_scan:
  "fields_strictly_sorted fs \<Longrightarrow>
     FindFieldByNameAndType d (Some fs) name type = Inr (FindFieldByNameAndType_scan fs name type)"
  by (simp add: FindFieldByNameAndType_def search_eq_scan CHECK_def Let_def)

theorem FindFieldByNameAndType_is_linear_scan_witness:
  "fields_strictly_sorted example_fields \<and>
   FindFieldByNameAndType example_decls (Some example_fields) ''name'' ''Ljava/lang/String;'' = Inr (Some 2) \<and>
   FindFieldByNameAndType_scan example_fields ''name'' ''Ljava/lang/String;'' = Some 2"
proof -
  have s: "fields_strictly_sorted example_fields"
    by code_simp
  have l: "FindFieldByNameAndType_scan example_fields ''name'' ''Ljava/lang/String;'' = Some 2"
    by code_simp
  from FindFieldByNameAndType_is_linear_scan [OF s, of example_decls "''name''" "''Ljava/lang/String;''"] l s
  show ?thesis by simp
qed

text \<open>
  C4 as stated fails on a sorted table with two entries of the same name and type: the
  binary search answers the second entry, the linear scan the first; a release build
  returns the second entry and a debug build aborts in the cross-check.
\<close>

theorem FindFieldByNameAndType_duplicate_counterexample:
  "fields_sorted duplicate_fields \<and>
   FindFieldByNameAndType_search duplicate_fields ''count'' ''I'' 0 (length duplicate_fields) = Some 1 \<and>
   FindFieldByNameAndType_scan duplicate_fields ''count'' ''I'' = Some 0 \<and>
   FindFieldByNameAndType (example_decls\<lparr>kIsDebugBuild := False\<rparr>) (Some duplicate_fields) ''count'' ''I''
     = Inr (Some 1) \<and>
   FindFieldByNameAndType example_decls (Some duplicate_fields) ''count'' ''I'' = Inl Fatal"
  by code_simp

section \<open>Same-package membership is reflexive and symmetric\<close>

lemma loop_continue:
  "i < m \<Longrightarrow> d1 ! i = d2 ! i \<Longrightarrow>
     IsInSamePackage_loop d1 d2 m i = IsInSamePackage_loop d1 d2 m (i + 1)"
  by (subst IsInSamePackage_loop.simps) simp

lemma loop_exit:
  "\<not> (i < m \<and> d1 ! i = d2 ! i) \<Longrightarrow> IsInSamePackage_loop d1 d2 m i = i"
  by (subst IsInSamePackage_loop.simps) auto

lemma loop_bounds:
  "i \<le> m \<Longrightarrow> i \<le> IsInSamePackage_loop d1 d2 m i \<and> IsInSamePackage_loop d1 d2 m i \<le> m"
proof (induction d1 d2 m i rule: IsInSamePackage_loop.induct)
  case (1 d1 d2 m i)
  show ?case
  proof (cases "i < m \<and> d1 ! i = d2 ! i")
    case True
    with "1.IH" have "i + 1 \<le> IsInSamePackage_loop d1 d2 m (i + 1) \<and> IsInSamePackage_loop d1 d2 m (i + 1) \<le> m"
      by simp
    with True show ?thesis
      by (simp add: loop_continue)
  next
    case False
    with "1.prems" show ?thesis
      by (simp add: loop_exit)
  qed
qed

lemma loop_common:
  "i \<le> m \<Longrightarrow> m \<le> length d1 \<Longrightarrow> m \<le> length d2 \<Longrightarrow> take i d1 = take i d2 \<Longrightarrow>
     take (IsInSamePackage_loop d1 d2 m i) d1 = take (IsInSamePackage_loop d1 d2 m i) d2"
proof (induction d1 d2 m i rule: IsInSamePackage_loop.induct)
  case (1 d1 d2 m i)
  show ?case
  proof (cases "i < m \<and> d1 ! i = d2 ! i")
    case True
    with "1.prems" have "take (i + 1) d1 = take (i + 1) d2"
      by (simp add: take_Suc_conv_app_nth)
    with "1.IH" True "1.prems"
    have "take (IsInSamePackage_loop d1 d2 m (i + 1)) d1 = take (IsInSamePackage_loop d1 d2 m (i + 1)) d2"
      by simp
    with True show ?thesis
      by (simp add: loop_continue)
  next
    case False
    with "1.prems" show ?thesis
      by (simp add: loop_exit)
  qed
qed

lemma loop_longest:
  "i \<le> n \<Longrightarrow> n \<le> m \<Longrightarrow> (\<forall>k. i \<le> k \<and> k < n \<longrightarrow> d1 ! k = d2 ! k) \<Longrightarrow>
     n \<le> IsInSamePackage_loop d1 d2 m i"
proof (induction d1 d2 m i rule: IsInSamePackage_loop.induct)
  case (1 d1 d2 m i)
  show ?case
  proof (cases "i < m \<and> d1 ! i = d2 ! i")
    case True
    then have eq: "IsInSamePackage_loop d1 d2 m i = IsInSamePackage_loop d1 d2 m (i + 1)"
      by (simp add: loop_continue)
    show ?thesis
    proof (cases "i = n")
      case True
      with loop_bounds [of i m d1 d2] "1.prems" show ?thesis by simp
    next
      case False
      with "1.prems" have "i + 1 \<le> n" by simp
      with "1.IH" True "1.prems" eq show ?thesis by simp
    qed
  next
    case False
    then have eq: "IsInSamePackage_loop d1 d2 m i = i"
      by (rule loop_exit)
    have "\<not> i < n"
    proof
      assume "i < n"
      with "1.prems" have "i < m" "d1 ! i = d2 ! i" by auto
      with False show False by simp
    qed
    with eq show ?thesis by simp
  qed
qed

lemma find_None_iff_notin: "StringPiece_find s c pos = None \<longleftrightarrow> c \<notin> set (drop pos s)"
  by (simp add: StringPiece_find_def)

lemma package_prefix_split:
  "\<exists>rest. s = package_prefix s @ rest \<and> CHR ''/'' \<notin> set rest"
proof -
  let ?P = "\<lambda>c. c \<noteq> CHR ''/''"
  have "rev s = takeWhile ?P (rev s) @ dropWhile ?P (rev s)" by simp
  then have "s = rev (dropWhile ?P (rev s)) @ rev (takeWhile ?P (rev s))"
    by (metis rev_append rev_rev_ident)
  moreover have "CHR ''/'' \<notin> set (rev (takeWhile ?P (rev s)))"
    by (auto dest: set_takeWhileD)
  ultimately show ?thesis
    unfolding package_prefix_def by blast
qed

lemma package_prefix_append:
  "CHR ''/'' \<notin> set rest \<Longrightarrow> package_prefix (p @ rest) = package_prefix p"
  by (simp add: package_prefix_def dropWhile_append)

lemma package_prefix_take:
  "CHR ''/'' \<notin> set (drop i s) \<Longrightarrow> package_prefix s = package_prefix (take i s)"
  using package_prefix_append [of "drop i s" "take i s"] by simp

lemma descriptors_iff_prefix:
  "IsInSamePackage_descriptors d1 d2 \<longleftrightarrow> package_prefix d1 = package_prefix d2"
proof -
  let ?m = "min (length d1) (length d2)"
  let ?i = "IsInSamePackage_loop d1 d2 ?m 0"
  have r: "IsInSamePackage_descriptors d1 d2 \<longleftrightarrow>
      CHR ''/'' \<notin> set (drop ?i d1) \<and> CHR ''/'' \<notin> set (drop ?i d2)"
    by (simp add: IsInSamePackage_descriptors_def Let_def find_None_iff_notin)
  have common: "take ?i d1 = take ?i d2"
    by (rule loop_common) simp_all
  show ?thesis
  proof
    assume "IsInSamePackage_descriptors d1 d2"
    with r have "package_prefix d1 = package_prefix (take ?i d1)"
      and "package_prefix d2 = package_prefix (take ?i d2)"
      by (simp_all add: package_prefix_take)
    with common show "package_prefix d1 = package_prefix d2" by simp
  next
    assume eq: "package_prefix d1 = package_prefix d2"
    let ?p = "package_prefix d1"
    from package_prefix_split [of d1] obtain r1 where
      d1: "d1 = ?p @ r1" and n1: "CHR ''/'' \<notin> set r1" by blast
    from package_prefix_split [of d2] eq obtain r2 where
      d2: "d2 = ?p @ r2" and n2: "CHR ''/'' \<notin> set r2" by auto
    have len: "length ?p \<le> ?m"
      using d1 d2 by (metis length_append le_add1 min.bounded_iff)
    have "\<forall>k. 0 \<le> k \<and> k < length ?p \<longrightarrow> d1 ! k = d2 ! k"
      using d1 d2 by (metis nth_append)
    with len have "length ?p \<le> ?i"
      by (intro loop_longest) simp_all
    then have "CHR ''/'' \<notin> set (drop ?i (?p @ r1))" "CHR ''/'' \<notin> set (drop ?i (?p @ r2))"
      using n1 n2 by (auto dest: in_set_dropD)
    moreover have "drop ?i d1 = drop ?i (?p @ r1)"
      by (rule arg_cong [OF d1])
    moreover have "drop ?i d2 = drop ?i (?p @ r2)"
      by (rule arg_cong [OF d2])
    ultimately have "CHR ''/'' \<notin> set (drop ?i d1)" "CHR ''/'' \<notin> set (drop ?i d2)"
      by presburger+
    with r show "IsInSamePackage_descriptors d1 d2" by simp
  qed
qed

lemma element_type_strip:
  "element_type h k e \<Longrightarrow> strip_array_classes h k = Some e"
proof (induction rule: element_type.induct)
  case (element_self k)
  then show ?case
    by (subst strip_array_classes.simps) (simp add: IsArrayClass_def)
next
  case (element_step k c e)
  then show ?case
    by (subst strip_array_classes.simps) (simp add: IsArrayClass_def)
qed

lemma strip_element_type:
  assumes "strip_array_classes h k = Some e"
  shows "element_type h k e"
proof (rule strip_array_classes.raw_induct [where P = "\<lambda>h k e. element_type h k e"])
  show "strip_array_classes h k = Some e" by fact
next
  fix strip :: "heap \<Rightarrow> addr \<Rightarrow> addr option" and h' klass y
  assume IH: "\<And>h k e. strip h k = Some e \<Longrightarrow> element_type h k e"
    and body: "(if IsArrayClass (h' klass)
                then case component_type (h' klass) of None \<Rightarrow> Some klass | Some c \<Rightarrow> strip h' c
                else Some klass) = Some y"
  show "element_type h' klass y"
  proof (cases "component_type (h' klass)")
    case None
    with body show ?thesis
      by (auto simp: IsArrayClass_def intro: element_self)
  next
    case (Some c)
    with body have "strip h' c = Some y"
      by (simp add: IsArrayClass_def)
    then have "element_type h' c y" by (rule IH)
    with Some show ?thesis by (rule element_step)
  qed
qed

lemma strip_iff_element_type:
  "strip_array_classes h k = Some e \<longleftrightarrow> element_type h k e"
  using element_type_strip strip_element_type by blast

lemma element_type_functional:
  assumes "element_type h k e" "element_type h k e'"
  shows "e = e'"
proof -
  from assms(1) have "strip_array_classes h k = Some e"
    by (rule element_type_strip)
  moreover from assms(2) have "strip_array_classes h k = Some e'"
    by (rule element_type_strip)
  ultimately show ?thesis by simp
qed

lemma IsInSamePackage_sym: "IsInSamePackage h a b = IsInSamePackage h b a"
  by (auto simp: IsInSamePackage_def descriptors_iff_prefix split: option.splits)

lemma IsInSamePackage_elements:
  assumes "element_type h a e1" "element_type h b e2"
  shows "IsInSamePackage h a b =
           Some (a = b \<or> class_loader (h a) = class_loader (h b) \<and>
                 package_prefix (descriptor (h e1)) = package_prefix (descriptor (h e2)))"
proof -
  from assms(1) have s1: "strip_array_classes h a = Some e1"
    by (rule element_type_strip)
  from assms(2) have s2: "strip_array_classes h b = Some e2"
    by (rule element_type_strip)
  note s = s1 s2
  show ?thesis
  proof (cases "a = b")
    case True
    then show ?thesis by (simp add: IsInSamePackage_def)
  next
    case False
    with s show ?thesis
      by (auto simp: IsInSamePackage_def descriptors_iff_prefix)
  qed
qed

text \<open>
  C8. \<^verbatim>\<open>IsInSamePackage\<close> answers true on a type and itself, and answers the same on a
  pair of types and on the swapped pair. When it answers true, the class loaders of the
  two types are the same and the descriptors of their innermost element types have the
  same package prefix (and two different types do have innermost element types). It
  returns whenever both types have an innermost element type.
\<close>

theorem IsInSamePackage_reflexive_symmetric:
  "IsInSamePackage h a a = Some True \<and>
   IsInSamePackage h a b = IsInSamePackage h b a \<and>
   (IsInSamePackage h a b = Some True \<longrightarrow>
      class_loader (h a) = class_loader (h b) \<and>
      (\<forall>e1 e2. element_type h a e1 \<longrightarrow> element_type h b e2 \<longrightarrow>
         package_prefix (descriptor (h e1)) = package_prefix (descriptor (h e2))) \<and>
      (a \<noteq> b \<longrightarrow> (\<exists>e1 e2. element_type h a e1 \<and> element_type h b e2))) \<and>
   ((\<exists>e1. element_type h a e1) \<longrightarrow> (\<exists>e2. element_type h b e2) \<longrightarrow> IsInSamePackage h a b \<noteq> None)"
proof (intro conjI impI allI)
  show "IsInSamePackage h a a = Some True"
    by (simp add: IsInSamePackage_def)
  show "IsInSamePackage h a b = IsInSamePackage h b a"
    by (rule IsInSamePackage_sym)
  { assume t: "IsInSamePackage h a b = Some True"
    then show "class_loader (h a) = class_loader (h b)"
      by (auto simp: IsInSamePackage_def split: if_splits)
    { fix e1 e2 assume e: "element_type h a e1" "element_type h b e2"
      show "package_prefix (descriptor (h e1)) = package_prefix (descriptor (h e2))"
      proof (cases "a = b")
        case True
        with e have "e1 = e2" by (auto intro: element_type_functional)
        then show ?thesis by simp
      next
        case False
        with t IsInSamePackage_elements [OF e] show ?thesis by simp
      qed }
    { assume "a \<noteq> b"
      with t show "\<exists>e1 e2. element_type h a e1 \<and> element_type h b e2"
        by (auto simp: IsInSamePackage_def strip_iff_element_type split: if_splits option.splits) } }
  { assume "\<exists>e1. element_type h a e1" "\<exists>e2. element_type h b e2"
    then show "IsInSamePackage h a b \<noteq> None"
      using IsInSamePackage_elements by fastforce }
qed

theorem IsInSamePackage_reflexive_symmetric_witness:
  "IsInSamePackage package_heap 3 2 = Some True \<and>
   IsInSamePackage package_heap 2 3 = Some True \<and>
   IsInSamePackage package_heap 3 4 = Some False \<and>
   element_type package_heap 3 1 \<and> element_type package_heap 2 2 \<and>
   class_loader (package_heap 3) = class_loader (package_heap 2) \<and>
   package_prefix (descriptor (package_heap 1)) = package_prefix (descriptor (package_heap 2)) \<and>
   package_prefix (descriptor (package_heap 1)) = ''Ljava/lang/''"
proof -
  have e2: "element_type package_heap 2 2"
    by (rule element_self) (simp add: package_heap_def example_class_def)
  have e4: "element_type package_heap 4 4"
    by (rule element_self) (simp add: package_heap_def example_class_def)
  have "element_type package_heap 1 1"
    by (rule element_self) (simp add: package_heap_def example_class_def)
  then have e1: "element_type package_heap 3 1"
    by (rule element_step [rotated]) (simp add: package_heap_def)
  have p1: "package_prefix (descriptor (package_heap 1)) = ''Ljava/lang/''"
    by (simp add: package_heap_def package_prefix_def)
  have p2: "package_prefix (descriptor (package_heap 2)) = ''Ljava/lang/''"
    by (simp add: package_heap_def package_prefix_def)
  have p4: "package_prefix (descriptor (package_heap 4)) = ''Ljava/util/''"
    by (simp add: package_heap_def package_prefix_def)
  have l: "class_loader (package_heap 3) = class_loader (package_heap 2)"
    "class_loader (package_heap 3) = class_loader (package_heap 4)"
    by (simp_all add: package_heap_def)
  from IsInSamePackage_elements [OF e1 e2] p1 p2 l
  have t: "IsInSamePackage package_heap 3 2 = Some True" by simp
  from IsInSamePackage_elements [OF e1 e4] p1 p4 l
  have f: "IsInSamePackage package_heap 3 4 = Some False" by simp
  from IsInSamePackage_reflexive_symmetric [of package_heap 3 2] t
  have "IsInSamePackage package_heap 2 3 = Some True"
    and "class_loader (package_heap 3) = class_loader (package_heap 2)"
    and "\<forall>e1 e2. element_type package_heap 3 e1 \<longrightarrow> element_type package_heap 2 e2 \<longrightarrow>
           package_prefix (descriptor (package_heap e1)) = package_prefix (descriptor (package_heap e2))"
    by simp_all
  with t f e1 e2 p1 show ?thesis by blast
qed

section \<open>Static-field resolution follows the walk order\<close>

lemma walk_Level_None:
  "FindStaticField_walk d h name type (Level None) = Some (Inr None)"
  by (subst FindStaticField_walk.simps) simp

lemma walk_Level_Some:
  "FindStaticField_walk d h name type (Level (Some k)) =
     (case FindDeclaredStaticField d (h k) name type of
        Inl e \<Rightarrow> Some (Inl e)
      | Inr (Some f) \<Rightarrow> Some (Inr (Some (k, f)))
      | Inr None \<Rightarrow> FindStaticField_walk d h name type (Interfaces k 0))"
  by (subst FindStaticField_walk.simps) simp

lemma walk_Interfaces_end:
  "i = length (direct_interfaces (h k)) \<Longrightarrow>
     FindStaticField_walk d h name type (Interfaces k i) =
     FindStaticField_walk d h name type (Level (super_class (h k)))"
  by (subst FindStaticField_walk.simps) simp

lemma walk_Interfaces_step:
  "i \<noteq> length (direct_interfaces (h k)) \<Longrightarrow>
   (kIsDebugBuild d \<Longrightarrow> direct_interfaces (h k) ! i \<noteq> None) \<Longrightarrow>
     FindStaticField_walk d h name type (Interfaces k i) =
     Option.bind (FindStaticField_walk d h name type (Level (direct_interfaces (h k) ! i)))
       (\<lambda>r. case r of
          Inl e \<Rightarrow> Some (Inl e)
        | Inr (Some f) \<Rightarrow> Some (Inr (Some f))
        | Inr None \<Rightarrow> FindStaticField_walk d h name type (Interfaces k (i + 1)))"
  by (subst FindStaticField_walk.simps) (auto simp: Let_def)

lemma first_found_append:
  "first_found d h name type (xs @ ys) =
     (case first_found d h name type xs of
        Inl e \<Rightarrow> Inl e
      | Inr (Some f) \<Rightarrow> Inr (Some f)
      | Inr None \<Rightarrow> first_found d h name type ys)"
  by (induction xs) (auto split: sum.splits option.splits)

lemma interfaces_resolved_append:
  "interfaces_resolved h (xs @ ys) \<longleftrightarrow> interfaces_resolved h xs \<and> interfaces_resolved h ys"
  by (simp add: interfaces_resolved_def)

lemma interfaces_resolved_concat:
  "interfaces_resolved h (concat xss) \<Longrightarrow> xs \<in> set xss \<Longrightarrow> interfaces_resolved h xs"
  by (auto simp: interfaces_resolved_def list_all_iff)

lemma walk_along_order:
  "walk_order h klass ks \<Longrightarrow> (kIsDebugBuild d \<longrightarrow> interfaces_resolved h ks) \<Longrightarrow>
     FindStaticField_walk d h name type (Level klass) = Some (first_found d h name type ks)"
proof (induction rule: walk_order.induct)
  case walk_null
  show ?case by (simp add: walk_Level_None)
next
  case (walk_class k iss ss)
  let ?ifs = "direct_interfaces (h k)"
  let ?walk = "FindStaticField_walk d h name type"
  let ?found = "first_found d h name type"
  from walk_class.IH(1) have len: "length ?ifs = length iss"
    by (rule list_all2_lengthD)
  from walk_class.prems have res:
    "kIsDebugBuild d \<Longrightarrow> list_all (\<lambda>i. i \<noteq> None) ?ifs"
    "kIsDebugBuild d \<longrightarrow> interfaces_resolved h (concat iss)"
    "kIsDebugBuild d \<longrightarrow> interfaces_resolved h ss"
    by (simp_all add: interfaces_resolved_def)
  from walk_class.IH(2) res(3) have super: "?walk (Level (super_class (h k))) = Some (?found ss)"
    by simp
  have iface: "?walk (Level (?ifs ! i)) = Some (?found (iss ! i))" if "i < length ?ifs" for i
  proof -
    from that len have "iss ! i \<in> set iss" by simp
    with res(2) have "kIsDebugBuild d \<longrightarrow> interfaces_resolved h (iss ! i)"
      by (auto dest: interfaces_resolved_concat)
    with list_all2_nthD [OF walk_class.IH(1) that] show ?thesis by simp
  qed
  have loop: "?walk (Interfaces k i) = Some (?found (concat (drop i iss) @ ss))"
    if "i \<le> length ?ifs" for i
    using that
  proof (induction rule: inc_induct)
    case base
    with len super show ?case by (simp add: walk_Interfaces_end)
  next
    case (step i)
    from step.hyps have i: "i < length ?ifs" by simp
    with res(1) have nn: "kIsDebugBuild d \<Longrightarrow> ?ifs ! i \<noteq> None"
      by (auto simp: list_all_length)
    from i len have d: "drop i iss = iss ! i # drop (Suc i) iss"
      by (simp add: Cons_nth_drop_Suc)
    from i have ne: "i \<noteq> length ?ifs" by simp
    show ?case
      by (simp add: walk_Interfaces_step [of i h k d name type, OF ne nn] iface [OF i] step.IH d
          first_found_append split: sum.splits option.splits)
  qed
  from loop [of 0] show ?case
    by (simp add: walk_Level_Some split: sum.splits option.splits)
qed

text \<open>
  C5, as the code has it. When the walk from the queried type visits the classes \<open>ks\<close>
  in order (the type, then the search of each of its direct interfaces in order, then the
  walk of its superclass, where the search of an interface is the same walk started at
  the interface, so that it goes on through the superclass chain of the interface),
  \<^verbatim>\<open>FindStaticField\<close> returns, and its answer is the first declared static field
  found along \<open>ks\<close>, or none when no class of \<open>ks\<close> declares one. In a debug build
  the direct interfaces of the visited classes are taken to be resolved, as the
  \<^verbatim>\<open>DCHECK\<close> of line 823 asserts; a release build skips an unresolved one.
\<close>

theorem FindStaticField_first_in_walk_order:
  "walk_order h klass ks \<Longrightarrow> (kIsDebugBuild d \<longrightarrow> interfaces_resolved h ks) \<Longrightarrow>
     FindStaticField d h klass name type = Some (first_found d h name type ks)"
  by (simp add: FindStaticField_def walk_along_order)

lemma field_heap_order: "walk_order field_heap (Some 14) [14, 11, 12, 10, 10, 13, 10]"
proof -
  have w10: "walk_order field_heap (Some 10) [10]"
    using walk_class [of field_heap 10 "[]" "[]"] walk_null [of field_heap]
    by (simp add: field_heap_def example_class_def)
  have w12: "walk_order field_heap (Some 12) [12, 10]"
    using walk_class [of field_heap 12 "[]" "[10]"] w10
    by (simp add: field_heap_def example_class_def)
  have w11: "walk_order field_heap (Some 11) [11, 12, 10, 10]"
    using walk_class [of field_heap 11 "[[12, 10]]" "[10]"] w10 w12
    by (simp add: field_heap_def)
  have w13: "walk_order field_heap (Some 13) [13, 10]"
    using walk_class [of field_heap 13 "[]" "[10]"] w10
    by (simp add: field_heap_def example_class_def)
  show ?thesis
    using walk_class [of field_heap 14 "[[11, 12, 10, 10]]" "[13, 10]"] w11 w13
    by (simp add: field_heap_def)
qed

theorem FindStaticField_first_in_walk_order_witness:
  "walk_order field_heap (Some 14) [14, 11, 12, 10, 10, 13, 10] \<and>
   interfaces_resolved field_heap [14, 11, 12, 10, 10, 13, 10] \<and>
   FindStaticField example_decls field_heap (Some 14) ''y'' ''I'' = Some (Inr (Some (12, 0)))"
proof -
  have r: "interfaces_resolved field_heap [14, 11, 12, 10, 10, 13, 10]"
    by code_simp
  have f: "first_found example_decls field_heap ''y'' ''I'' [14, 11, 12, 10, 10, 13, 10] = Inr (Some (12, 0))"
    by code_simp
  from FindStaticField_first_in_walk_order [OF field_heap_order, of example_decls "''y''" "''I''"] r f
    field_heap_order
  show ?thesis by simp
qed

text \<open>The order that the specification words is unique.\<close>

inductive_cases interface_order_SomeE: "interface_order h (Some k) ys"

inductive_cases interface_order_NoneE: "interface_order h None ys"

inductive_cases claimed_walk_order_SomeE: "claimed_walk_order h (Some k) ys"

inductive_cases claimed_walk_order_NoneE: "claimed_walk_order h None ys"

lemma interface_order_functional:
  "interface_order h k xs \<Longrightarrow> interface_order h k ys \<Longrightarrow> xs = ys"
proof (induction arbitrary: ys rule: interface_order.induct)
  case interface_null
  then show ?case by (rule interface_order_NoneE) simp
next
  case (interface_class k iss)
  from interface_class.prems show ?case
  proof (rule interface_order_SomeE)
    fix jss
    assume ys: "ys = k # concat jss"
      and j: "list_all2 (interface_order h) (direct_interfaces (h k)) jss"
    have "iss = jss"
    proof (rule nth_equalityI)
      show "length iss = length jss"
        using list_all2_lengthD [OF interface_class.IH] list_all2_lengthD [OF j] by simp
    next
      fix i assume i: "i < length iss"
      with interface_class.IH have "i < length (direct_interfaces (h k))"
        by (simp add: list_all2_lengthD)
      from list_all2_nthD [OF interface_class.IH this] list_all2_nthD [OF j this]
      show "iss ! i = jss ! i" by simp
    qed
    with ys show ?thesis by simp
  qed
qed

lemma claimed_walk_order_functional:
  "claimed_walk_order h k xs \<Longrightarrow> claimed_walk_order h k ys \<Longrightarrow> xs = ys"
proof (induction arbitrary: ys rule: claimed_walk_order.induct)
  case claimed_null
  then show ?case by (rule claimed_walk_order_NoneE) simp
next
  case (claimed_class k iss ss)
  from claimed_class.prems show ?case
  proof (rule claimed_walk_order_SomeE)
    fix jss ts
    assume ys: "ys = k # concat jss @ ts"
      and j: "list_all2 (interface_order h) (direct_interfaces (h k)) jss"
      and t: "claimed_walk_order h (super_class (h k)) ts"
    have "iss = jss"
    proof (rule nth_equalityI)
      show "length iss = length jss"
        using list_all2_lengthD [OF claimed_class.hyps(1)] list_all2_lengthD [OF j] by simp
    next
      fix i assume i: "i < length iss"
      with claimed_class.hyps(1) have "i < length (direct_interfaces (h k))"
        by (simp add: list_all2_lengthD)
      from list_all2_nthD [OF claimed_class.hyps(1) this] list_all2_nthD [OF j this]
      show "iss ! i = jss ! i" by (rule interface_order_functional)
    qed
    moreover from claimed_class.IH t have "ss = ts" by simp
    ultimately show ?thesis using ys by simp
  qed
qed

lemma object_field_heap_order: "walk_order object_field_heap (Some 14) [14, 11, 10, 13, 10]"
proof -
  have w10: "walk_order object_field_heap (Some 10) [10]"
    using walk_class [of object_field_heap 10 "[]" "[]"] walk_null [of object_field_heap]
    by (simp add: object_field_heap_def example_class_def)
  have w11: "walk_order object_field_heap (Some 11) [11, 10]"
    using walk_class [of object_field_heap 11 "[]" "[10]"] w10
    by (simp add: object_field_heap_def example_class_def)
  have w13: "walk_order object_field_heap (Some 13) [13, 10]"
    using walk_class [of object_field_heap 13 "[]" "[10]"] w10
    by (simp add: object_field_heap_def example_class_def)
  show ?thesis
    using walk_class [of object_field_heap 14 "[[11, 10]]" "[13, 10]"] w11 w13
    by (simp add: object_field_heap_def)
qed

lemma object_field_heap_claimed:
  "claimed_walk_order object_field_heap (Some 14) [14, 11, 13, 10]"
proof -
  have c10: "claimed_walk_order object_field_heap (Some 10) [10]"
    using claimed_class [of object_field_heap 10 "[]" "[]"] claimed_null [of object_field_heap]
    by (simp add: object_field_heap_def example_class_def)
  have c13: "claimed_walk_order object_field_heap (Some 13) [13, 10]"
    using claimed_class [of object_field_heap 13 "[]" "[10]"] c10
    by (simp add: object_field_heap_def example_class_def)
  have i11: "interface_order object_field_heap (Some 11) [11]"
    using interface_class [of object_field_heap 11 "[]"]
    by (simp add: object_field_heap_def example_class_def)
  show ?thesis
    using claimed_class [of object_field_heap 14 "[[11]]" "[13, 10]"] i11 c13
    by (simp add: object_field_heap_def)
qed

text \<open>
  C5 as stated fails where the superclass of an interface declares the field. Class 14
  implements interface 11 and extends class 13; the superclass 10 of the interface and
  class 13 both declare the static field \<open>y\<close>. The order of the claim is 14, 11, 13, 10
  and its first field is the one of class 13; the code goes from interface 11 on to its
  superclass 10 and answers the field of class 10.
\<close>

theorem FindStaticField_interface_superclass_counterexample:
  "FindStaticField example_decls object_field_heap (Some 14) ''y'' ''I'' = Some (Inr (Some (10, 0))) \<and>
   claimed_walk_order object_field_heap (Some 14) [14, 11, 13, 10] \<and>
   first_found example_decls object_field_heap ''y'' ''I'' [14, 11, 13, 10] = Inr (Some (13, 0))"
proof -
  have r: "interfaces_resolved object_field_heap [14, 11, 10, 13, 10]"
    by code_simp
  have f: "first_found example_decls object_field_heap ''y'' ''I'' [14, 11, 10, 13, 10] = Inr (Some (10, 0))"
    by code_simp
  have g: "first_found example_decls object_field_heap ''y'' ''I'' [14, 11, 13, 10] = Inr (Some (13, 0))"
    by code_simp
  from walk_along_order [OF object_field_heap_order, of example_decls "''y''" "''I''"] r f
  have "FindStaticField example_decls object_field_heap (Some 14) ''y'' ''I'' = Some (Inr (Some (10, 0)))"
    by (simp add: FindStaticField_def)
  with object_field_heap_claimed g show ?thesis by simp
qed

section \<open>Interface-super resolution\<close>

lemma HasSameNameAndSignature_sym:
  "HasSameNameAndSignature a b \<longleftrightarrow> HasSameNameAndSignature b a"
  by (auto simp: HasSameNameAndSignature_def)

lemma HasSameNameAndSignature_trans:
  "HasSameNameAndSignature a m \<Longrightarrow> HasSameNameAndSignature c m \<Longrightarrow> HasSameNameAndSignature a c"
  by (simp add: HasSameNameAndSignature_def)

lemma find_own_is_find:
  "find_own_virtual_method method ms = List.find (\<lambda>m. HasSameNameAndSignature m method) ms"
  by (induction ms) (simp_all add: HasSameNameAndSignature_sym [of "method"])

lemma DCHECK_True [simp]: "b \<Longrightarrow> DCHECK d b = Inr ()"
  by (simp add: DCHECK_def)

lemma overridden_loop_eq:
  "list_all (\<lambda>a. HasSameNameAndSignature a current_method) abstract_methods \<Longrightarrow>
     overridden_loop d h iface current_method abstract_methods =
       Inr (list_ex (\<lambda>a. IsAssignableFrom d h iface (declaring_class a)) abstract_methods)"
  by (induction abstract_methods) simp_all

lemma matches_of_simps [simp]:
  "matches_of method iface [] = []"
  "HasSameNameAndSignature current_method method \<Longrightarrow>
     matches_of method iface (current_method # ms) = (iface, current_method) # matches_of method iface ms"
  "\<not> HasSameNameAndSignature current_method method \<Longrightarrow>
     matches_of method iface (current_method # ms) = matches_of method iface ms"
  by (simp_all add: matches_of_def)

lemma scan_interface_flat:
  "list_all (\<lambda>a. HasSameNameAndSignature a method) abstract_methods \<Longrightarrow>
     (case scan_interface d h method iface ms abstract_methods of
        Inl e \<Rightarrow> False
      | Inr (Inl m) \<Rightarrow>
          \<forall>rest. flat_scan d h (matches_of method iface ms @ rest) abstract_methods = Some m
      | Inr (Inr abstract_methods') \<Rightarrow>
          list_all (\<lambda>a. HasSameNameAndSignature a method) abstract_methods' \<and>
          (\<forall>rest. flat_scan d h (matches_of method iface ms @ rest) abstract_methods =
                  flat_scan d h rest abstract_methods'))"
proof (induction ms arbitrary: abstract_methods)
  case Nil
  then show ?case by (auto split: sum.splits)
next
  case (Cons current_method ms)
  show ?case
  proof (cases "HasSameNameAndSignature current_method method")
    case False
    with Cons.IH [OF Cons.prems] show ?thesis by (auto split: sum.splits)
  next
    case True
    show ?thesis
    proof (cases "is_default current_method")
      case False
      from Cons.prems True
      have "list_all (\<lambda>a. HasSameNameAndSignature a method) (abstract_methods @ [current_method])"
        by simp
      from Cons.IH [OF this] True False show ?thesis by (auto split: sum.splits)
    next
      case default: True
      from Cons.prems True
      have "list_all (\<lambda>a. HasSameNameAndSignature a current_method) abstract_methods"
        by (auto simp: list_all_iff intro: HasSameNameAndSignature_trans)
      note ov = overridden_loop_eq [OF this, of d h iface]
      show ?thesis
      proof (cases "list_ex (\<lambda>a. IsAssignableFrom d h iface (declaring_class a)) abstract_methods")
        case True
        with Cons.IH [OF Cons.prems] \<open>HasSameNameAndSignature current_method method\<close> default ov
        show ?thesis by (auto split: sum.splits)
      next
        case False
        with \<open>HasSameNameAndSignature current_method method\<close> default ov
        show ?thesis by (auto split: sum.splits)
      qed
    qed
  qed
qed

lemma scan_iftable_flat:
  "k \<le> length ift \<Longrightarrow> list_all (\<lambda>a. HasSameNameAndSignature a method) abstract_methods \<Longrightarrow>
     scan_iftable d h method ift k abstract_methods =
       Inr (flat_scan d h
              (concat (map (\<lambda>iface. matches_of method iface (declared_virtual_methods (h iface)))
                           (rev (take k ift))))
              abstract_methods)"
proof (induction k arbitrary: abstract_methods)
  case 0
  then show ?case by (cases abstract_methods) simp_all
next
  case (Suc k)
  let ?iface = "ift ! k"
  from Suc.prems have k: "k < length ift" by simp
  then have t: "rev (take (Suc k) ift) = ?iface # rev (take k ift)"
    by (simp add: take_Suc_conv_app_nth)
  from scan_interface_flat [OF Suc.prems(2), of d h ?iface "declared_virtual_methods (h ?iface)"]
  show ?case
  proof (cases "scan_interface d h method ?iface (declared_virtual_methods (h ?iface)) abstract_methods")
    case (Inl e)
    with scan_interface_flat [OF Suc.prems(2), of d h ?iface "declared_virtual_methods (h ?iface)"]
    show ?thesis by simp
  next
    case (Inr r)
    show ?thesis
    proof (cases r)
      case (Inl m)
      with Inr scan_interface_flat [OF Suc.prems(2), of d h ?iface "declared_virtual_methods (h ?iface)"]
      show ?thesis using k by (simp add: t)
    next
      case (Inr abstract_methods')
      with \<open>scan_interface d h method ?iface (declared_virtual_methods (h ?iface)) abstract_methods = Inr r\<close>
        scan_interface_flat [OF Suc.prems(2), of d h ?iface "declared_virtual_methods (h ?iface)"]
      have inv: "list_all (\<lambda>a. HasSameNameAndSignature a method) abstract_methods'"
        and fl: "\<And>rest. flat_scan d h (matches_of method ?iface (declared_virtual_methods (h ?iface)) @ rest)
                   abstract_methods = flat_scan d h rest abstract_methods'"
        by simp_all
      from k have "k \<le> length ift" by simp
      from Suc.IH [OF this inv] Inr
        \<open>scan_interface d h method ?iface (declared_virtual_methods (h ?iface)) abstract_methods = Inr r\<close>
      show ?thesis using k by (simp add: t fl)
    qed
  qed
qed

lemma scan_matches_concat:
  "scan_matches h this method =
     concat (map (\<lambda>iface. matches_of method iface (declared_virtual_methods (h iface)))
                 (rev (iftable (h this))))"
  by (simp add: scan_matches_def matches_of_def filter_concat filter_map comp_def)

lemma candidates_before_prefix:
  "candidates_before (pre @ ms) (length pre) = candidates_before pre (length pre)"
  by (simp add: candidates_before_def)

lemma candidates_before_snoc:
  "candidates_before (pre @ [(iface, m)]) (Suc (length pre)) =
     candidates_before pre (length pre) @ (if is_default m then [] else [m])"
  by (simp add: candidates_before_def)

lemma candidates_before_Suc:
  "n < length all \<Longrightarrow>
     candidates_before all (Suc n) =
       candidates_before all n @ (if is_default (snd (all ! n)) then [] else [snd (all ! n)])"
  by (simp add: candidates_before_def take_Suc_conv_app_nth split_beta)

lemma flat_scan_spec:
  "all = pre @ ms \<Longrightarrow>
   flat_scan d h ms (candidates_before all (length pre)) =
     (case List.find (\<lambda>n. is_default (snd (all ! n)) \<and> \<not> match_overridden d h all n)
             [length pre..<length all] of
        Some n \<Rightarrow> Some (snd (all ! n))
      | None \<Rightarrow>
          (case candidates_before all (length all) of
             [] \<Rightarrow> None
           | a # _ \<Rightarrow> Some a))"
proof (induction ms arbitrary: pre)
  case Nil
  then show ?case by simp
next
  case (Cons x ms)
  obtain iface m where x: "x = (iface, m)" by (cases x)
  let ?n = "length pre"
  from Cons.prems have lt: "?n < length all" by simp
  from Cons.prems have here: "all ! ?n = (iface, m)"
    by (simp add: x)
  from Cons.prems have all': "all = (pre @ [x]) @ ms" by simp
  have range: "[?n..<length all] = ?n # [length (pre @ [x])..<length all]"
    using lt by (simp add: upt_conv_Cons del: upt_Suc)
  have ov: "match_overridden d h all ?n =
      list_ex (\<lambda>a. IsAssignableFrom d h iface (declaring_class a)) (candidates_before all ?n)"
    by (simp add: match_overridden_def here)
  have cb: "candidates_before all (length (pre @ [x])) =
      candidates_before all ?n @ (if is_default m then [] else [m])"
    using candidates_before_Suc [OF lt] by (simp add: here)
  note IH = Cons.IH [OF all', unfolded cb]
  show ?case
  proof (cases "is_default m \<and> \<not> match_overridden d h all ?n")
    case True
    then show ?thesis
      unfolding range by (simp add: x here ov)
  next
    case False
    then have "flat_scan d h (x # ms) (candidates_before all ?n) =
        flat_scan d h ms (candidates_before all ?n @ (if is_default m then [] else [m]))"
      by (auto simp: x ov)
    also note IH
    finally show ?thesis
      unfolding range using False by (auto simp: here)
  qed
qed

lemma FindVirtualMethodForInterfaceSuper_eq:
  "FindVirtualMethodForInterfaceSuper d h this method =
     (if kIsDebugBuild d \<and>
         \<not> (is_interface (h (declaring_class method)) \<and> is_interface (h this))
      then Inl Fatal
      else Inr (interface_super_spec d h this method))"
proof -
  have scan: "scan_iftable d h method (iftable (h this)) (length (iftable (h this))) [] =
      Inr (flat_scan d h (scan_matches h this method) [])"
    by (simp add: scan_iftable_flat scan_matches_concat)
  have "flat_scan d h (scan_matches h this method) [] =
      (let ms = scan_matches h this method in
       case List.find (\<lambda>n. is_default (snd (ms ! n)) \<and> \<not> match_overridden d h ms n) [0..<length ms] of
         Some n \<Rightarrow> Some (snd (ms ! n))
       | None \<Rightarrow> (case candidates_before ms (length ms) of [] \<Rightarrow> None | a # _ \<Rightarrow> Some a))"
    using flat_scan_spec [of "scan_matches h this method" "[]" "scan_matches h this method" d h]
    by (simp add: candidates_before_def Let_def)
  with scan show ?thesis
    by (auto simp: FindVirtualMethodForInterfaceSuper_def interface_super_spec_def
        interface_super_choice_def DCHECK_def
        find_own_is_find split: option.splits)
qed

text \<open>
  C1. Under the preconditions that a debug build asserts on entry,
  \<^verbatim>\<open>FindVirtualMethodForInterfaceSuper\<close> returns the choice of the specification: the
  first of the type's own virtual methods (its declared ones, followed by the ones the
  loader copied into it) with the name and signature of the query, if any; otherwise,
  scanning the interface table from index count-1 down to 0 and within each interface its
  declared virtual methods, the first default match that is not overridden, a default
  match being overridden exactly when an abstract candidate collected before it is
  declared on a subtype of its interface; otherwise the first abstract candidate
  collected, or none.
\<close>

theorem FindVirtualMethodForInterfaceSuper_resolution:
  "(kIsDebugBuild d \<longrightarrow> is_interface (h this) \<and> is_interface (h (declaring_class method))) \<Longrightarrow>
     FindVirtualMethodForInterfaceSuper d h this method = Inr (interface_super_spec d h this method)"
  by (auto simp: FindVirtualMethodForInterfaceSuper_eq)

theorem FindVirtualMethodForInterfaceSuper_resolution_witness:
  "is_interface (interface_heap 32) \<and> is_interface (interface_heap 35) \<and>
   is_interface (interface_heap (declaring_class (method_f 30 True))) \<and>
   FindVirtualMethodForInterfaceSuper example_decls interface_heap 32 (method_f 30 True)
     = Inr (Some (method_f 31 True)) \<and>
   FindVirtualMethodForInterfaceSuper example_decls interface_heap 35 (method_f 30 True)
     = Inr (Some (method_f 34 False))"
proof -
  have i: "is_interface (interface_heap 32)" "is_interface (interface_heap 35)"
    "is_interface (interface_heap (declaring_class (method_f 30 True)))"
    by (simp_all add: interface_heap_def method_f_def)
  have s1: "interface_super_spec example_decls interface_heap 32 (method_f 30 True) = Some (method_f 31 True)"
    by code_simp
  have s2: "interface_super_spec example_decls interface_heap 35 (method_f 30 True) = Some (method_f 34 False)"
    by code_simp
  from FindVirtualMethodForInterfaceSuper_resolution [of example_decls interface_heap 32 "method_f 30 True"] i s1
  have a: "FindVirtualMethodForInterfaceSuper example_decls interface_heap 32 (method_f 30 True)
     = Inr (Some (method_f 31 True))" by simp
  from FindVirtualMethodForInterfaceSuper_resolution [of example_decls interface_heap 35 "method_f 30 True"] i s2
  have b: "FindVirtualMethodForInterfaceSuper example_decls interface_heap 35 (method_f 30 True)
     = Inr (Some (method_f 34 False))" by simp
  from i a b show ?thesis by blast
qed

text \<open>
  The type's own methods of the first step include the copied ones: on a type with no
  declared method but a copied one of the queried name and signature, the copied method is
  the answer, where the choice over the declared methods alone would go on to the
  interface table.
\<close>

lemma own_methods_include_copied:
  "FindVirtualMethodForInterfaceSuper example_decls interface_heap 33 (method_f 30 True)
     = Inr (Some (method_f 33 False)) \<and>
   interface_super_declared_only example_decls interface_heap 33 (method_f 30 True)
     = Some (method_f 31 True) \<and>
   declared_virtual_methods (interface_heap 33) = []"
  by code_simp

text \<open>
  C9. In a debug build \<^verbatim>\<open>FindVirtualMethodForInterfaceSuper\<close> aborts on entry when the
  receiver is not an interface or the declaring class of the query is not an interface,
  and returns a result when both are interfaces.
\<close>

theorem FindVirtualMethodForInterfaceSuper_precondition:
  "kIsDebugBuild d \<Longrightarrow>
     (\<not> is_interface (h this) \<or> \<not> is_interface (h (declaring_class method)) \<longrightarrow>
        FindVirtualMethodForInterfaceSuper d h this method = Inl Fatal) \<and>
     (is_interface (h this) \<and> is_interface (h (declaring_class method)) \<longrightarrow>
        (\<exists>r. FindVirtualMethodForInterfaceSuper d h this method = Inr r))"
  by (auto simp: FindVirtualMethodForInterfaceSuper_eq)

theorem FindVirtualMethodForInterfaceSuper_precondition_witness:
  "kIsDebugBuild example_decls \<and> \<not> is_interface (interface_heap 36) \<and>
   FindVirtualMethodForInterfaceSuper example_decls interface_heap 36 (method_f 30 True) = Inl Fatal \<and>
   is_interface (interface_heap 32) \<and> is_interface (interface_heap (declaring_class (method_f 30 True))) \<and>
   (\<exists>r. FindVirtualMethodForInterfaceSuper example_decls interface_heap 32 (method_f 30 True) = Inr r)"
proof -
  have d: "kIsDebugBuild example_decls"
    by (simp add: example_decls_def)
  have n: "\<not> is_interface (interface_heap 36)"
    by (simp add: interface_heap_def example_class_def)
  have i: "is_interface (interface_heap 32)"
    "is_interface (interface_heap (declaring_class (method_f 30 True)))"
    by (simp_all add: interface_heap_def method_f_def)
  from FindVirtualMethodForInterfaceSuper_precondition [OF d, of interface_heap 36 "method_f 30 True"] n
  have a: "FindVirtualMethodForInterfaceSuper example_decls interface_heap 36 (method_f 30 True) = Inl Fatal"
    by blast
  from FindVirtualMethodForInterfaceSuper_precondition [OF d, of interface_heap 32 "method_f 30 True"] i
  have b: "\<exists>r. FindVirtualMethodForInterfaceSuper example_decls interface_heap 32 (method_f 30 True) = Inr r"
    by blast
  from d n i a b show ?thesis by blast
qed

end
